theory Spec2Isabelle
  imports Complex_Main "HOL-Library.Word" "HOL-Library.Signed_Division"
begin

section \<open>JavaScript numbers and library functions used by VoxelWorld\<close>

text \<open>
  Voxel coordinates, cell sizes and voxel types are integral JavaScript numbers; they are
  modelled as \<^typ>\<open>int\<close>, and the cell size is positive. The quotient \<open>x / cellSize\<close>
  is a real division followed by \<open>Math.floor\<close>, and is written that way below.
\<close>

subsection \<open>Number to string, as used by the template literal of computeCellID\<close>

definition digit_char :: "nat \<Rightarrow> char" where
  "digit_char d = ''0123456789'' ! d"

function digits :: "nat \<Rightarrow> string" where
  "digits n = (if n < 10 then [digit_char n] else digits (n div 10) @ [digit_char (n mod 10)])"
  by pat_completeness auto
termination
  by (relation "measure id") auto

declare digits.simps [simp del]

definition toString :: "int \<Rightarrow> string" where
  "toString k = (if k < 0 then CHR ''-'' # digits (nat (- k)) else digits (nat k))"

subsection \<open>The remainder operator, THREE.MathUtils.euclideanModulo and \<open>| 0\<close>\<close>

text \<open>
  JavaScript's \<open>%\<close> truncates towards zero (\<open>smod\<close>). The three.js helper is
  \<^verbatim>\<open>euclideanModulo(n, m) = ((n % m) + m) % m\<close>. The bitwise \<open>| 0\<close> converts its
  operand to a signed 32-bit integer.
\<close>

definition euclideanModulo :: "int \<Rightarrow> int \<Rightarrow> int" where
  "euclideanModulo n m = ((n smod m) + m) smod m"

definition toInt32 :: "int \<Rightarrow> int" where
  "toInt32 k = sint (word_of_int k :: 32 word)"

subsection \<open>Non-integral numbers\<close>

text \<open>
  The ray caster and the texture coordinates compute with fractions, with \<open>Infinity\<close>
  (division by a zero direction component is part of the algorithm) and, for a ray of
  length zero, with \<open>NaN\<close>. \<open>jsnum\<close> has these special values, with the rules of
  IEEE 754 for them; finite values are real numbers. \<open>Fin 0\<close> stands for both zeros: a
  zero divisor is taken as \<open>+0\<close>, which is what \<open>Math.sqrt\<close> of a sum of squares gives,
  and the only other possibly zero divisor, in \<open>Math.abs(1 / dx)\<close>, has its sign
  removed at once.

  The result of an operation on doubles is the double nearest to the exact result. That
  is an infinity from the magnitude \<open>2^1024 - 2^970\<close> on (half a step above the largest
  double) and zero up to the magnitude \<open>2^-1075\<close> (half the smallest double). \<open>dbl\<close>
  applies these two limits of the range, so sums, products and quotients overflow and
  underflow as they do in the program; between the limits it keeps the exact result:
  the rounding to 53 bits is not modelled.
\<close>

datatype jsnum = Fin real | PInf | NInf | NaN

definition overflowAt :: real where
  "overflowAt = 2 ^ 1024 - 2 ^ 970"

definition underflowAt :: real where
  "underflowAt = 1 / 2 ^ 1075"

definition dbl :: "real \<Rightarrow> jsnum" where
  "dbl x =
     (if overflowAt \<le> \<bar>x\<bar> then (if 0 < x then PInf else NInf)
      else if \<bar>x\<bar> \<le> underflowAt then Fin 0
      else Fin x)"

fun jneg :: "jsnum \<Rightarrow> jsnum" where
  "jneg (Fin a) = Fin (- a)"
| "jneg PInf = NInf"
| "jneg NInf = PInf"
| "jneg NaN = NaN"

fun jabs :: "jsnum \<Rightarrow> jsnum" where
  "jabs (Fin a) = Fin \<bar>a\<bar>"
| "jabs PInf = PInf"
| "jabs NInf = PInf"
| "jabs NaN = NaN"

fun jadd :: "jsnum \<Rightarrow> jsnum \<Rightarrow> jsnum" where
  "jadd (Fin a) (Fin b) = dbl (a + b)"
| "jadd NaN _ = NaN"
| "jadd _ NaN = NaN"
| "jadd PInf NInf = NaN"
| "jadd NInf PInf = NaN"
| "jadd PInf _ = PInf"
| "jadd _ PInf = PInf"
| "jadd NInf _ = NInf"
| "jadd _ NInf = NInf"

definition jsub :: "jsnum \<Rightarrow> jsnum \<Rightarrow> jsnum" where
  "jsub a b = jadd a (jneg b)"

fun jmul :: "jsnum \<Rightarrow> jsnum \<Rightarrow> jsnum" where
  "jmul (Fin a) (Fin b) = dbl (a * b)"
| "jmul NaN _ = NaN"
| "jmul _ NaN = NaN"
| "jmul (Fin a) PInf = (if a = 0 then NaN else if 0 < a then PInf else NInf)"
| "jmul (Fin a) NInf = (if a = 0 then NaN else if 0 < a then NInf else PInf)"
| "jmul PInf (Fin b) = (if b = 0 then NaN else if 0 < b then PInf else NInf)"
| "jmul NInf (Fin b) = (if b = 0 then NaN else if 0 < b then NInf else PInf)"
| "jmul PInf PInf = PInf"
| "jmul PInf NInf = NInf"
| "jmul NInf PInf = NInf"
| "jmul NInf NInf = PInf"

fun jdiv :: "jsnum \<Rightarrow> jsnum \<Rightarrow> jsnum" where
  "jdiv (Fin a) (Fin b) =
     (if b \<noteq> 0 then dbl (a / b) else if a = 0 then NaN else if 0 < a then PInf else NInf)"
| "jdiv NaN _ = NaN"
| "jdiv _ NaN = NaN"
| "jdiv (Fin a) PInf = Fin 0"
| "jdiv (Fin a) NInf = Fin 0"
| "jdiv PInf (Fin b) = (if 0 \<le> b then PInf else NInf)"
| "jdiv NInf (Fin b) = (if 0 \<le> b then NInf else PInf)"
| "jdiv PInf PInf = NaN"
| "jdiv PInf NInf = NaN"
| "jdiv NInf PInf = NaN"
| "jdiv NInf NInf = NaN"

text \<open>\<open>Math.sqrt\<close>: the root of a negative number and of \<open>NaN\<close> is \<open>NaN\<close>.\<close>

fun jsqrt :: "jsnum \<Rightarrow> jsnum" where
  "jsqrt (Fin a) = (if a < 0 then NaN else Fin (sqrt a))"
| "jsqrt PInf = PInf"
| "jsqrt NInf = NaN"
| "jsqrt NaN = NaN"

fun jlt :: "jsnum \<Rightarrow> jsnum \<Rightarrow> bool" where
  "jlt (Fin a) (Fin b) = (a < b)"
| "jlt NaN _ = False"
| "jlt _ NaN = False"
| "jlt (Fin a) PInf = True"
| "jlt (Fin a) NInf = False"
| "jlt PInf _ = False"
| "jlt NInf (Fin b) = True"
| "jlt NInf PInf = True"
| "jlt NInf NInf = False"

fun jle :: "jsnum \<Rightarrow> jsnum \<Rightarrow> bool" where
  "jle (Fin a) (Fin b) = (a \<le> b)"
| "jle NaN _ = False"
| "jle _ NaN = False"
| "jle (Fin a) PInf = True"
| "jle (Fin a) NInf = False"
| "jle PInf PInf = True"
| "jle PInf _ = False"
| "jle NInf _ = True"

section \<open>The chunk store of src/main.js\<close>

text \<open>
  \<open>this.cells\<close> is an object used as a dictionary from the text of a cell's coordinates
  to its array. A key always has two commas, so it is never the name of a property that
  the object inherits.
\<close>

type_synonym cell = "8 word list"

record world =
  cellSize :: int
  tileSize :: real
  tileTextureWidth :: real
  tileTextureHeight :: real
  cellSliceSize :: int
  cells :: "string \<rightharpoonup> cell"

definition VoxelWorld :: "int \<Rightarrow> real \<Rightarrow> real \<Rightarrow> real \<Rightarrow> world" where
  "VoxelWorld cs ts tw th =
     \<lparr>cellSize = cs, tileSize = ts, tileTextureWidth = tw, tileTextureHeight = th,
      cellSliceSize = cs * cs, cells = Map.empty\<rparr>"

definition computeVoxelOffset :: "world \<Rightarrow> int \<Rightarrow> int \<Rightarrow> int \<Rightarrow> int" where
  "computeVoxelOffset w x y z =
     (let voxelX = toInt32 (euclideanModulo x (cellSize w));
          voxelY = toInt32 (euclideanModulo y (cellSize w));
          voxelZ = toInt32 (euclideanModulo z (cellSize w))
      in voxelY * cellSliceSize w + voxelZ * cellSize w + voxelX)"

definition computeCellID :: "world \<Rightarrow> int \<Rightarrow> int \<Rightarrow> int \<Rightarrow> string" where
  "computeCellID w x y z =
     (let cellX = \<lfloor>real_of_int x / real_of_int (cellSize w)\<rfloor>;
          cellY = \<lfloor>real_of_int y / real_of_int (cellSize w)\<rfloor>;
          cellZ = \<lfloor>real_of_int z / real_of_int (cellSize w)\<rfloor>
      in toString cellX @ '','' @ toString cellY @ '','' @ toString cellZ)"

subsection \<open>Typed-array cells\<close>

text \<open>
  A cell is a \<open>Uint8Array\<close>. Reading outside its bounds gives \<open>undefined\<close> (\<open>None\<close>),
  writing outside its bounds is ignored, and a stored number is reduced modulo 256.
\<close>

definition u8_get :: "cell \<Rightarrow> int \<Rightarrow> int option" where
  "u8_get c i = (if 0 \<le> i \<and> i < int (length c) then Some (uint (c ! nat i)) else None)"

definition u8_set :: "cell \<Rightarrow> int \<Rightarrow> int \<Rightarrow> cell" where
  "u8_set c i v = (if 0 \<le> i \<and> i < int (length c) then c[nat i := word_of_int v] else c)"

text \<open>Truthiness of a value read from a cell: \<open>undefined\<close> and \<open>0\<close> are falsy.\<close>

fun truthy :: "int option \<Rightarrow> bool" where
  "truthy None = False"
| "truthy (Some v) = (v \<noteq> 0)"

subsection \<open>Cells of the store\<close>

definition addCellForVoxel :: "world \<Rightarrow> int \<Rightarrow> int \<Rightarrow> int \<Rightarrow> cell \<times> world" where
  "addCellForVoxel w x y z =
     (let cellID = computeCellID w x y z in
      case cells w cellID of
        None \<Rightarrow>
          (let cell = replicate (nat (cellSize w * cellSize w * cellSize w)) 0
           in (cell, w\<lparr>cells := (cells w)(cellID \<mapsto> cell)\<rparr>))
      | Some cell \<Rightarrow> (cell, w))"

definition getCellForVoxel :: "world \<Rightarrow> int \<Rightarrow> int \<Rightarrow> int \<Rightarrow> cell option" where
  "getCellForVoxel w x y z = cells w (computeCellID w x y z)"

text \<open>
  In the source \<open>cell\<close> is a reference to the array held by \<open>this.cells\<close>, so the
  assignment \<open>cell[voxelOffset] = v\<close> changes the stored array. \<open>writeCell\<close> is that
  assignment: the updated array is put back under the key of the cell.
\<close>

definition writeCell :: "cell \<times> world \<Rightarrow> int \<Rightarrow> int \<Rightarrow> int \<Rightarrow> int \<Rightarrow> world" where
  "writeCell cw x y z v =
     (let (cell, w) = cw; voxelOffset = computeVoxelOffset w x y z
      in w\<lparr>cells := (cells w)(computeCellID w x y z \<mapsto> u8_set cell voxelOffset v)\<rparr>)"

definition setVoxel :: "world \<Rightarrow> int \<Rightarrow> int \<Rightarrow> int \<Rightarrow> int \<Rightarrow> bool \<Rightarrow> world" where
  "setVoxel w x y z v addCell =
     (case getCellForVoxel w x y z of
        None \<Rightarrow> (if \<not> addCell then w else writeCell (addCellForVoxel w x y z) x y z v)
      | Some cell \<Rightarrow> writeCell (cell, w) x y z v)"

definition getVoxel :: "world \<Rightarrow> int \<Rightarrow> int \<Rightarrow> int \<Rightarrow> int option" where
  "getVoxel w x y z =
     (case getCellForVoxel w x y z of
        None \<Rightarrow> Some 0
      | Some cell \<Rightarrow> u8_get cell (computeVoxelOffset w x y z))"

text \<open>
  A store is well formed when its configuration is one the constructor can be given
  (a positive cell size whose local coordinates fit 32 bits), the slice size is the one the
  constructor computes, and every cell has \<open>cellSize\<^sup>3\<close> entries.
\<close>

definition wf_world :: "world \<Rightarrow> bool" where
  "wf_world w \<longleftrightarrow>
     0 < cellSize w \<and> cellSize w < 2 ^ 31 \<and> cellSliceSize w = cellSize w * cellSize w \<and>
     (\<forall>c \<in> ran (cells w). int (length c) = cellSize w * cellSize w * cellSize w)"

section \<open>Mesh extraction: generateGeometryDataForCell\<close>

record corner =
  pos :: "int \<times> int \<times> int"
  uv :: "int \<times> int"

record face =
  uvRow :: int
  dir :: "int \<times> int \<times> int"
  corners :: "corner list"

definition faces :: "face list" where
  "faces =
   [\<lparr>uvRow = 0, dir = (-1, 0, 0), corners =
       [\<lparr>pos = (0, 1, 0), uv = (0, 1)\<rparr>, \<lparr>pos = (0, 0, 0), uv = (0, 0)\<rparr>,
        \<lparr>pos = (0, 1, 1), uv = (1, 1)\<rparr>, \<lparr>pos = (0, 0, 1), uv = (1, 0)\<rparr>]\<rparr>,
    \<lparr>uvRow = 0, dir = (1, 0, 0), corners =
       [\<lparr>pos = (1, 1, 1), uv = (0, 1)\<rparr>, \<lparr>pos = (1, 0, 1), uv = (0, 0)\<rparr>,
        \<lparr>pos = (1, 1, 0), uv = (1, 1)\<rparr>, \<lparr>pos = (1, 0, 0), uv = (1, 0)\<rparr>]\<rparr>,
    \<lparr>uvRow = 1, dir = (0, -1, 0), corners =
       [\<lparr>pos = (1, 0, 1), uv = (1, 0)\<rparr>, \<lparr>pos = (0, 0, 1), uv = (0, 0)\<rparr>,
        \<lparr>pos = (1, 0, 0), uv = (1, 1)\<rparr>, \<lparr>pos = (0, 0, 0), uv = (0, 1)\<rparr>]\<rparr>,
    \<lparr>uvRow = 2, dir = (0, 1, 0), corners =
       [\<lparr>pos = (0, 1, 1), uv = (1, 1)\<rparr>, \<lparr>pos = (1, 1, 1), uv = (0, 1)\<rparr>,
        \<lparr>pos = (0, 1, 0), uv = (1, 0)\<rparr>, \<lparr>pos = (1, 1, 0), uv = (0, 0)\<rparr>]\<rparr>,
    \<lparr>uvRow = 0, dir = (0, 0, -1), corners =
       [\<lparr>pos = (1, 0, 0), uv = (0, 0)\<rparr>, \<lparr>pos = (0, 0, 0), uv = (1, 0)\<rparr>,
        \<lparr>pos = (1, 1, 0), uv = (0, 1)\<rparr>, \<lparr>pos = (0, 1, 0), uv = (1, 1)\<rparr>]\<rparr>,
    \<lparr>uvRow = 0, dir = (0, 0, 1), corners =
       [\<lparr>pos = (0, 0, 1), uv = (0, 0)\<rparr>, \<lparr>pos = (1, 0, 1), uv = (1, 0)\<rparr>,
        \<lparr>pos = (0, 1, 1), uv = (0, 1)\<rparr>, \<lparr>pos = (1, 1, 1), uv = (1, 1)\<rparr>]\<rparr>]"

record geometry =
  positions :: "int list"
  normals :: "int list"
  uvs :: "jsnum list"
  indices :: "nat list"

definition no_geometry :: geometry where
  "no_geometry = \<lparr>positions = [], normals = [], uvs = [], indices = []\<rparr>"

text \<open>The body of the loop over the corners of a face (one vertex).\<close>

definition pushCorner ::
  "world \<Rightarrow> nat \<times> nat \<times> nat \<Rightarrow> int \<Rightarrow> face \<Rightarrow> corner \<Rightarrow> geometry \<Rightarrow> geometry" where
  "pushCorner w l uvVoxel f c g =
     (case (l, pos c, dir f, uv c) of ((x, y, z), (p0, p1, p2), (d0, d1, d2), (u0, u1)) \<Rightarrow>
        g\<lparr>positions := positions g @ [p0 + int x, p1 + int y, p2 + int z],
          normals := normals g @ [d0, d1, d2],
          uvs := uvs g @
            [jdiv (Fin (real_of_int (uvVoxel + u0) * tileSize w)) (Fin (tileTextureWidth w)),
             jsub (Fin 1)
               (jdiv (Fin (real_of_int (uvRow f + 1 - u1) * tileSize w))
                  (Fin (tileTextureHeight w)))]\<rparr>)"

text \<open>
  The code run for a face whose neighbor is empty: four vertices, then two triangles.
  \<open>positions.length / 3\<close> is a whole number, since vertices are pushed three numbers at
  a time.
\<close>

definition pushFace ::
  "world \<Rightarrow> nat \<times> nat \<times> nat \<Rightarrow> int \<Rightarrow> face \<Rightarrow> geometry \<Rightarrow> geometry" where
  "pushFace w l uvVoxel f g =
     (let ndx = length (positions g) div 3;
          g' = fold (pushCorner w l uvVoxel f) (corners f) g
      in g'\<lparr>indices := indices g' @ [ndx, ndx + 1, ndx + 2, ndx + 2, ndx + 1, ndx + 3]\<rparr>)"

text \<open>The body of the loop over the faces, for the voxel at \<open>(voxelX, voxelY, voxelZ)\<close>.\<close>

definition visitFace ::
  "world \<Rightarrow> int \<times> int \<times> int \<Rightarrow> nat \<times> nat \<times> nat \<Rightarrow> int \<Rightarrow> face \<Rightarrow> geometry \<Rightarrow> geometry" where
  "visitFace w v l uvVoxel f g =
     (case (v, dir f) of ((voxelX, voxelY, voxelZ), (d0, d1, d2)) \<Rightarrow>
        (let neighbor = getVoxel w (voxelX + d0) (voxelY + d1) (voxelZ + d2)
         in if \<not> truthy neighbor then pushFace w l uvVoxel f g else g))"

text \<open>The body of the innermost loop over the local coordinates.\<close>

definition visitVoxel ::
  "world \<Rightarrow> int \<times> int \<times> int \<Rightarrow> nat \<Rightarrow> nat \<Rightarrow> nat \<Rightarrow> geometry \<Rightarrow> geometry" where
  "visitVoxel w s y z x g =
     (case s of (startX, startY, startZ) \<Rightarrow>
        (let voxelY = startY + int y; voxelZ = startZ + int z; voxelX = startX + int x;
             voxel = getVoxel w voxelX voxelY voxelZ
         in if truthy voxel
            then (let uvVoxel = the voxel - 1
                  in fold (visitFace w (voxelX, voxelY, voxelZ) (x, y, z) uvVoxel) faces g)
            else g))"

definition generateGeometryDataForCell :: "world \<Rightarrow> int \<Rightarrow> int \<Rightarrow> int \<Rightarrow> geometry" where
  "generateGeometryDataForCell w cellX cellY cellZ =
     (let n = nat (cellSize w);
          s = (cellX * cellSize w, cellY * cellSize w, cellZ * cellSize w)
      in fold (\<lambda>y. fold (\<lambda>z. fold (\<lambda>x. visitVoxel w s y z x) [0..<n]) [0..<n]) [0..<n]
           no_geometry)"

subsection \<open>The faces a cell shows, as a list\<close>

text \<open>
  The description of the extraction that the loops are compared with: \<open>cellFaces\<close> lists
  every local voxel position of a cell with every face, in the order of the loops
  (y outermost, then z, then x, then the face table); a face is visible when its voxel is
  non-empty and the neighbor at voxel position + face normal, read with \<open>getVoxel\<close>, is
  empty; \<open>emittedFaces\<close> keeps the visible ones, and \<open>pushQuad\<close> is the code run for one
  of them.
\<close>

definition cellFaces :: "nat \<Rightarrow> ((nat \<times> nat \<times> nat) \<times> face) list" where
  "cellFaces n =
     concat (map (\<lambda>y. concat (map (\<lambda>z. concat (map (\<lambda>x. map (Pair (x, y, z)) faces) [0..<n]))
       [0..<n])) [0..<n])"

definition faceVisible :: "world \<Rightarrow> int \<times> int \<times> int \<Rightarrow> (nat \<times> nat \<times> nat) \<times> face \<Rightarrow> bool" where
  "faceVisible w s lf =
     (case (s, lf) of ((startX, startY, startZ), ((x, y, z), f)) \<Rightarrow>
        (case dir f of (d0, d1, d2) \<Rightarrow>
           truthy (getVoxel w (startX + int x) (startY + int y) (startZ + int z)) \<and>
           \<not> truthy (getVoxel w (startX + int x + d0) (startY + int y + d1)
                (startZ + int z + d2))))"

definition cellStart :: "world \<Rightarrow> int \<Rightarrow> int \<Rightarrow> int \<Rightarrow> int \<times> int \<times> int" where
  "cellStart w cellX cellY cellZ = (cellX * cellSize w, cellY * cellSize w, cellZ * cellSize w)"

definition emittedFaces ::
  "world \<Rightarrow> int \<Rightarrow> int \<Rightarrow> int \<Rightarrow> ((nat \<times> nat \<times> nat) \<times> face) list" where
  "emittedFaces w cellX cellY cellZ =
     filter (faceVisible w (cellStart w cellX cellY cellZ)) (cellFaces (nat (cellSize w)))"

definition pushQuad ::
  "world \<Rightarrow> int \<times> int \<times> int \<Rightarrow> (nat \<times> nat \<times> nat) \<times> face \<Rightarrow> geometry \<Rightarrow> geometry" where
  "pushQuad w s lf g =
     (case (s, lf) of ((startX, startY, startZ), ((x, y, z), f)) \<Rightarrow>
        pushFace w (x, y, z)
          (the (getVoxel w (startX + int x) (startY + int y) (startZ + int z)) - 1) f g)"

section \<open>Ray casting: intersectRay\<close>

text \<open>
  The values fixed before the loop are kept in \<open>ray\<close>, the variables of the loop in
  \<open>march\<close>. Start and end are points with finite coordinates.
\<close>

record ray =
  start :: "real \<times> real \<times> real"
  dx :: jsnum
  dy :: jsnum
  dz :: jsnum
  len :: jsnum
  stepX :: int
  stepY :: int
  stepZ :: int
  txDelta :: jsnum
  tyDelta :: jsnum
  tzDelta :: jsnum

record march =
  t :: jsnum
  ix :: int
  iy :: int
  iz :: int
  txMax :: jsnum
  tyMax :: jsnum
  tzMax :: jsnum
  steppedIndex :: int

record hit =
  position :: "jsnum \<times> jsnum \<times> jsnum"
  normal :: "int \<times> int \<times> int"
  voxel :: int

text \<open>
  One axis of the set-up: direction, step, \<open>tDelta\<close>, and the first \<open>tMax\<close>. The
  distance \<open>xDist\<close> from the start to the first boundary lies between 0 and 1 and is a
  difference of numbers at most 1 apart, which neither overflows nor underflows; it is
  kept as a real number.
\<close>

definition axisStep :: "jsnum \<Rightarrow> int" where
  "axisStep d = (if jlt (Fin 0) d then 1 else - 1)"

definition axisDelta :: "jsnum \<Rightarrow> jsnum" where
  "axisDelta d = jabs (jdiv (Fin 1) d)"

definition axisDist :: "int \<Rightarrow> int \<Rightarrow> real \<Rightarrow> real" where
  "axisDist stp i s = (if 0 < stp then real_of_int i + 1 - s else s - real_of_int i)"

definition axisMax :: "jsnum \<Rightarrow> real \<Rightarrow> jsnum" where
  "axisMax delta dst = (if jlt delta PInf then jmul delta (Fin dst) else PInf)"

definition rayOf :: "real \<times> real \<times> real \<Rightarrow> real \<times> real \<times> real \<Rightarrow> ray" where
  "rayOf st en =
     (case (st, en) of ((sx, sy, sz), (ex, ey, ez)) \<Rightarrow>
        (let dx0 = jsub (Fin ex) (Fin sx);
             dy0 = jsub (Fin ey) (Fin sy);
             dz0 = jsub (Fin ez) (Fin sz);
             lenSq = jadd (jadd (jmul dx0 dx0) (jmul dy0 dy0)) (jmul dz0 dz0);
             l = jsqrt lenSq;
             dx1 = jdiv dx0 l;
             dy1 = jdiv dy0 l;
             dz1 = jdiv dz0 l
         in \<lparr>start = st, dx = dx1, dy = dy1, dz = dz1, len = l,
             stepX = axisStep dx1, stepY = axisStep dy1, stepZ = axisStep dz1,
             txDelta = axisDelta dx1, tyDelta = axisDelta dy1, tzDelta = axisDelta dz1\<rparr>))"

definition marchOf :: "ray \<Rightarrow> march" where
  "marchOf r =
     (case start r of (sx, sy, sz) \<Rightarrow>
        (let ix0 = \<lfloor>sx\<rfloor>; iy0 = \<lfloor>sy\<rfloor>; iz0 = \<lfloor>sz\<rfloor>
         in \<lparr>t = Fin 0, ix = ix0, iy = iy0, iz = iz0,
             txMax = axisMax (txDelta r) (axisDist (stepX r) ix0 sx),
             tyMax = axisMax (tyDelta r) (axisDist (stepY r) iy0 sy),
             tzMax = axisMax (tzDelta r) (axisDist (stepZ r) iz0 sz),
             steppedIndex = - 1\<rparr>))"

text \<open>The second half of the loop body: advance to the next nearest voxel boundary.\<close>

definition advance :: "ray \<Rightarrow> march \<Rightarrow> march" where
  "advance r m =
     (if jlt (txMax m) (tyMax m) then
        (if jlt (txMax m) (tzMax m) then
           m\<lparr>ix := ix m + stepX r, t := txMax m, txMax := jadd (txMax m) (txDelta r),
             steppedIndex := 0\<rparr>
         else
           m\<lparr>iz := iz m + stepZ r, t := tzMax m, tzMax := jadd (tzMax m) (tzDelta r),
             steppedIndex := 2\<rparr>)
      else
        (if jlt (tyMax m) (tzMax m) then
           m\<lparr>iy := iy m + stepY r, t := tyMax m, tyMax := jadd (tyMax m) (tyDelta r),
             steppedIndex := 1\<rparr>
         else
           m\<lparr>iz := iz m + stepZ r, t := tzMax m, tzMax := jadd (tzMax m) (tzDelta r),
             steppedIndex := 2\<rparr>))"

definition hitAt :: "ray \<Rightarrow> march \<Rightarrow> int \<Rightarrow> hit" where
  "hitAt r m v =
     (case start r of (sx, sy, sz) \<Rightarrow>
        \<lparr>position = (jadd (Fin sx) (jmul (t m) (dx r)),
                     jadd (Fin sy) (jmul (t m) (dy r)),
                     jadd (Fin sz) (jmul (t m) (dz r))),
         normal = (if steppedIndex m = 0 then - stepX r else 0,
                   if steppedIndex m = 1 then - stepY r else 0,
                   if steppedIndex m = 2 then - stepZ r else 0),
         voxel = v\<rparr>)"

text \<open>
  The main loop. The result \<open>None\<close> of the partial function stands for a loop that does
  not return; \<open>Some None\<close> is the source's \<open>null\<close>.
\<close>

partial_function (option) marchLoop :: "world \<Rightarrow> ray \<Rightarrow> march \<Rightarrow> hit option option" where
  "marchLoop w r m =
     (if jle (t m) (len r) then
        (case getVoxel w (ix m) (iy m) (iz m) of
           Some v \<Rightarrow> if v \<noteq> 0 then Some (Some (hitAt r m v)) else marchLoop w r (advance r m)
         | None \<Rightarrow> marchLoop w r (advance r m))
      else Some None)"

definition intersectRay ::
  "world \<Rightarrow> real \<times> real \<times> real \<Rightarrow> real \<times> real \<times> real \<Rightarrow> hit option option" where
  "intersectRay w st en = (let r = rayOf st en in marchLoop w r (marchOf r))"

text \<open>
  Notions used to state how long the loop runs. \<open>exitsAfter r m n\<close>: started in \<open>m\<close> and
  meeting no voxel, the loop condition \<open>t <= len\<close> holds on entry to the first \<open>n\<close>
  iterations and fails after them, so the body runs exactly \<open>n\<close> times. \<open>minStep\<close> is the
  smallest of the three per-axis steps \<open>tDelta\<close>.
\<close>

definition exitsAfter :: "ray \<Rightarrow> march \<Rightarrow> nat \<Rightarrow> bool" where
  "exitsAfter r m n \<longleftrightarrow>
     list_all (\<lambda>k. jle (t ((advance r ^^ k) m)) (len r)) [0..<n] \<and>
     \<not> jle (t ((advance r ^^ n) m)) (len r)"

definition jmin :: "jsnum \<Rightarrow> jsnum \<Rightarrow> jsnum" where
  "jmin a b = (if jlt b a then b else a)"

definition minStep :: "ray \<Rightarrow> jsnum" where
  "minStep r = jmin (txDelta r) (jmin (tyDelta r) (tzDelta r))"

text \<open>
  The rays of moderate size: no coordinate is beyond \<open>2^40\<close> in magnitude, and end and
  start are at least \<open>2^-500\<close> apart in some coordinate. For such a ray the sum of
  squares \<open>lenSq\<close> neither overflows nor is zero, and the ray is far shorter than \<open>2^53\<close>,
  the size from which on a double no longer changes when a number near 1 is added to it.
\<close>

definition moderateRay :: "real \<times> real \<times> real \<Rightarrow> real \<times> real \<times> real \<Rightarrow> bool" where
  "moderateRay st en =
     (case (st, en) of ((sx, sy, sz), (ex, ey, ez)) \<Rightarrow>
        \<bar>sx\<bar> \<le> 2 ^ 40 \<and> \<bar>sy\<bar> \<le> 2 ^ 40 \<and> \<bar>sz\<bar> \<le> 2 ^ 40 \<and>
        \<bar>ex\<bar> \<le> 2 ^ 40 \<and> \<bar>ey\<bar> \<le> 2 ^ 40 \<and> \<bar>ez\<bar> \<le> 2 ^ 40 \<and>
        (1 / 2 ^ 500 \<le> \<bar>ex - sx\<bar> \<or> 1 / 2 ^ 500 \<le> \<bar>ey - sy\<bar> \<or> 1 / 2 ^ 500 \<le> \<bar>ez - sz\<bar>))"





section \<open>The single-cell world of src/unnamed/part_000\<close>

text \<open>
  The earlier variant of \<open>VoxelWorld\<close> keeps one cell, for the chunk \<open>(0, 0, 0)\<close>, and
  has neither tiles nor texture coordinates. Its names carry the suffix 1 here.
\<close>

record world1 =
  cellSize1 :: int
  cellSliceSize1 :: int
  cell1 :: cell

definition VoxelWorld1 :: "int \<Rightarrow> world1" where
  "VoxelWorld1 cs =
     \<lparr>cellSize1 = cs, cellSliceSize1 = cs * cs, cell1 = replicate (nat (cs * cs * cs)) 0\<rparr>"

definition getCellForVoxel1 :: "world1 \<Rightarrow> int \<Rightarrow> int \<Rightarrow> int \<Rightarrow> cell option" where
  "getCellForVoxel1 w x y z =
     (let cellX = \<lfloor>real_of_int x / real_of_int (cellSize1 w)\<rfloor>;
          cellY = \<lfloor>real_of_int y / real_of_int (cellSize1 w)\<rfloor>;
          cellZ = \<lfloor>real_of_int z / real_of_int (cellSize1 w)\<rfloor>
      in if cellX \<noteq> 0 \<or> cellY \<noteq> 0 \<or> cellZ \<noteq> 0 then None else Some (cell1 w))"

definition computeVoxelOffset1 :: "world1 \<Rightarrow> int \<Rightarrow> int \<Rightarrow> int \<Rightarrow> int" where
  "computeVoxelOffset1 w x y z =
     (let voxelX = toInt32 (euclideanModulo x (cellSize1 w));
          voxelY = toInt32 (euclideanModulo y (cellSize1 w));
          voxelZ = toInt32 (euclideanModulo z (cellSize1 w))
      in voxelY * cellSliceSize1 w + voxelZ * cellSize1 w + voxelX)"

definition setVoxel1 :: "world1 \<Rightarrow> int \<Rightarrow> int \<Rightarrow> int \<Rightarrow> int \<Rightarrow> world1" where
  "setVoxel1 w x y z v =
     (case getCellForVoxel1 w x y z of
        None \<Rightarrow> w
      | Some cell \<Rightarrow> w\<lparr>cell1 := u8_set cell (computeVoxelOffset1 w x y z) v\<rparr>)"

definition getVoxel1 :: "world1 \<Rightarrow> int \<Rightarrow> int \<Rightarrow> int \<Rightarrow> int option" where
  "getVoxel1 w x y z =
     (case getCellForVoxel1 w x y z of
        None \<Rightarrow> Some 0
      | Some cell \<Rightarrow> u8_get cell (computeVoxelOffset1 w x y z))"

record face1 =
  dir1 :: "int \<times> int \<times> int"
  vertices :: "(int \<times> int \<times> int) list"

definition faces1 :: "face1 list" where
  "faces1 =
   [\<lparr>dir1 = (-1, 0, 0), vertices = [(0, 1, 0), (0, 0, 0), (0, 1, 1), (0, 0, 1)]\<rparr>,
    \<lparr>dir1 = (1, 0, 0), vertices = [(1, 1, 1), (1, 0, 1), (1, 1, 0), (1, 0, 0)]\<rparr>,
    \<lparr>dir1 = (0, -1, 0), vertices = [(1, 0, 1), (0, 0, 1), (1, 0, 0), (0, 0, 0)]\<rparr>,
    \<lparr>dir1 = (0, 1, 0), vertices = [(0, 1, 1), (1, 1, 1), (0, 1, 0), (1, 1, 0)]\<rparr>,
    \<lparr>dir1 = (0, 0, -1), vertices = [(1, 0, 0), (0, 0, 0), (1, 1, 0), (0, 1, 0)]\<rparr>,
    \<lparr>dir1 = (0, 0, 1), vertices = [(0, 0, 1), (1, 0, 1), (0, 1, 1), (1, 1, 1)]\<rparr>]"

record geometry1 =
  positions1 :: "int list"
  normals1 :: "int list"
  indices1 :: "nat list"

definition no_geometry1 :: geometry1 where
  "no_geometry1 = \<lparr>positions1 = [], normals1 = [], indices1 = []\<rparr>"

definition pushVertex1 ::
  "nat \<times> nat \<times> nat \<Rightarrow> face1 \<Rightarrow> int \<times> int \<times> int \<Rightarrow> geometry1 \<Rightarrow> geometry1" where
  "pushVertex1 l f p g =
     (case (l, p, dir1 f) of ((x, y, z), (p0, p1, p2), (d0, d1, d2)) \<Rightarrow>
        g\<lparr>positions1 := positions1 g @ [p0 + int x, p1 + int y, p2 + int z],
          normals1 := normals1 g @ [d0, d1, d2]\<rparr>)"

definition pushFace1 :: "nat \<times> nat \<times> nat \<Rightarrow> face1 \<Rightarrow> geometry1 \<Rightarrow> geometry1" where
  "pushFace1 l f g =
     (let ndx = length (positions1 g) div 3;
          g' = fold (pushVertex1 l f) (vertices f) g
      in g'\<lparr>indices1 := indices1 g' @ [ndx, ndx + 1, ndx + 2, ndx + 2, ndx + 1, ndx + 3]\<rparr>)"

definition visitFace1 ::
  "world1 \<Rightarrow> int \<times> int \<times> int \<Rightarrow> nat \<times> nat \<times> nat \<Rightarrow> face1 \<Rightarrow> geometry1 \<Rightarrow> geometry1" where
  "visitFace1 w v l f g =
     (case (v, dir1 f) of ((voxelX, voxelY, voxelZ), (d0, d1, d2)) \<Rightarrow>
        (let neighbor = getVoxel1 w (voxelX + d0) (voxelY + d1) (voxelZ + d2)
         in if \<not> truthy neighbor then pushFace1 l f g else g))"

definition visitVoxel1 ::
  "world1 \<Rightarrow> int \<times> int \<times> int \<Rightarrow> nat \<Rightarrow> nat \<Rightarrow> nat \<Rightarrow> geometry1 \<Rightarrow> geometry1" where
  "visitVoxel1 w s y z x g =
     (case s of (startX, startY, startZ) \<Rightarrow>
        (let voxelY = startY + int y; voxelZ = startZ + int z; voxelX = startX + int x;
             voxel = getVoxel1 w voxelX voxelY voxelZ
         in if truthy voxel
            then fold (visitFace1 w (voxelX, voxelY, voxelZ) (x, y, z)) faces1 g
            else g))"

definition generateGeometryDataForCell1 :: "world1 \<Rightarrow> int \<Rightarrow> int \<Rightarrow> int \<Rightarrow> geometry1" where
  "generateGeometryDataForCell1 w cellX cellY cellZ =
     (let n = nat (cellSize1 w);
          s = (cellX * cellSize1 w, cellY * cellSize1 w, cellZ * cellSize1 w)
      in fold (\<lambda>y. fold (\<lambda>z. fold (\<lambda>x. visitVoxel1 w s y z x) [0..<n]) [0..<n]) [0..<n]
           no_geometry1)"

text \<open>
  The store of \<open>src/main.js\<close> that holds the same voxels: the one cell under the key of
  chunk \<open>(0, 0, 0)\<close>. It is used to carry results from one variant to the other.
\<close>

definition asStore :: "world1 \<Rightarrow> world" where
  "asStore w =
     \<lparr>cellSize = cellSize1 w, tileSize = 0, tileTextureWidth = 0, tileTextureHeight = 0,
      cellSliceSize = cellSliceSize1 w, cells = [''0,0,0'' \<mapsto> cell1 w]\<rparr>"

definition wf_world1 :: "world1 \<Rightarrow> bool" where
  "wf_world1 w \<longleftrightarrow>
     0 < cellSize1 w \<and> cellSize1 w < 2 ^ 31 \<and> cellSliceSize1 w = cellSize1 w * cellSize1 w \<and>
     int (length (cell1 w)) = cellSize1 w * cellSize1 w * cellSize1 w"

text \<open>
  Comparing the two variants: the buffers they share, and a face of one table with the
  face of the other.
\<close>

definition sameMesh :: "geometry1 \<Rightarrow> geometry \<Rightarrow> bool" where
  "sameMesh g1 g \<longleftrightarrow>
     positions1 g1 = positions g \<and> normals1 g1 = normals g \<and> indices1 g1 = indices g"

definition sameFace :: "face1 \<Rightarrow> face \<Rightarrow> bool" where
  "sameFace f1 f \<longleftrightarrow> dir1 f1 = dir f \<and> vertices f1 = map pos (corners f)"

section \<open>The operations of the store, as a sequence\<close>

datatype op =
  SetVoxel int int int int bool
| GetVoxel int int int
| GenerateGeometryDataForCell int int int
| IntersectRay "real \<times> real \<times> real" "real \<times> real \<times> real"

text \<open>
  Only \<open>setVoxel\<close> assigns to the store; the other three methods read it and return a
  value.
\<close>

fun exec :: "op \<Rightarrow> world \<Rightarrow> world" where
  "exec (SetVoxel x y z v addCell) w = setVoxel w x y z v addCell"
| "exec (GetVoxel x y z) w = w"
| "exec (GenerateGeometryDataForCell cellX cellY cellZ) w = w"
| "exec (IntersectRay st en) w = w"

definition run :: "op list \<Rightarrow> world \<Rightarrow> world" where
  "run ops w = fold exec ops w"

fun targets :: "op \<Rightarrow> (int \<times> int \<times> int) set" where
  "targets (SetVoxel x y z v addCell) = (if addCell then {(x, y, z)} else {})"
| "targets _ = {}"

section \<open>Cell keys are unambiguous\<close>

text \<open>
  The key of a cell is the text \<open>cellX,cellY,cellZ\<close>. Decimal numerals have no comma and
  determine their number, so different cell coordinates never share a key.
\<close>

lemma digit_char_in: "d < 10 \<Longrightarrow> digit_char d \<in> set ''0123456789''"
  unfolding digit_char_def by (rule nth_mem) simp

lemma digit_char_inj: "d < 10 \<Longrightarrow> e < 10 \<Longrightarrow> digit_char d = digit_char e \<Longrightarrow> d = e"
proof -
  assume "d < 10" "e < 10" "digit_char d = digit_char e"
  moreover have "distinct ''0123456789''" by simp
  ultimately show "d = e"
    unfolding digit_char_def by (simp add: nth_eq_iff_index_eq)
qed

lemma digits_ne: "digits n \<noteq> []"
  by (subst digits.simps) simp

lemma set_digits: "set (digits n) \<subseteq> set ''0123456789''"
proof (induction n rule: digits.induct)
  case (1 n)
  show ?case
  proof (cases "n < 10")
    case True
    then show ?thesis using digit_char_in [of n] by (subst digits.simps) simp
  next
    case False
    have "n mod 10 < 10" by simp
    from digit_char_in [OF this] 1 False show ?thesis by (subst digits.simps) simp
  qed
qed

lemma digits_inj: "digits n = digits m \<Longrightarrow> n = m"
proof (induction n arbitrary: m rule: digits.induct)
  case (1 n)
  show ?case
  proof (cases "n < 10")
    case True
    then have n1: "digits n = [digit_char n]" by (subst digits.simps) simp
    have "m < 10"
    proof (rule ccontr)
      assume "\<not> m < 10"
      then have "digits m = digits (m div 10) @ [digit_char (m mod 10)]"
        by (subst digits.simps) simp
      with n1 "1.prems" digits_ne [of "m div 10"] show False by simp
    qed
    then have "digits m = [digit_char m]" by (subst digits.simps) simp
    with n1 "1.prems" True \<open>m < 10\<close> show ?thesis by (simp add: digit_char_inj)
  next
    case False
    then have n2: "digits n = digits (n div 10) @ [digit_char (n mod 10)]"
      by (subst digits.simps) simp
    have "\<not> m < 10"
    proof
      assume "m < 10"
      then have "digits m = [digit_char m]" by (subst digits.simps) simp
      with n2 "1.prems" digits_ne [of "n div 10"] show False by simp
    qed
    then have m2: "digits m = digits (m div 10) @ [digit_char (m mod 10)]"
      by (subst digits.simps) simp
    from n2 m2 "1.prems" have a: "digits (n div 10) = digits (m div 10)"
      and b: "digit_char (n mod 10) = digit_char (m mod 10)" by simp_all
    from "1.IH" [OF False a] have "n div 10 = m div 10" .
    moreover from b have "n mod 10 = m mod 10" by (simp add: digit_char_inj)
    ultimately show ?thesis by (metis div_mult_mod_eq)
  qed
qed

lemma comma_notin_toString: "CHR '','' \<notin> set (toString k)"
  using set_digits [of "nat k"] set_digits [of "nat (- k)"] by (auto simp: toString_def)

lemma toString_inj: "toString k = toString l \<Longrightarrow> k = l"
proof -
  assume a: "toString k = toString l"
  have nd: "\<And>n. hd (digits n) \<noteq> CHR ''-''"
  proof -
    fix n have "hd (digits n) \<in> set (digits n)" using digits_ne by simp
    with set_digits [of n] show "hd (digits n) \<noteq> CHR ''-''" by auto
  qed
  show "k = l"
  proof (cases "k < 0"; cases "l < 0")
    assume "k < 0" "l < 0"
    with a have "nat (-k) = nat (-l)" by (simp add: toString_def digits_inj)
    with \<open>k < 0\<close> \<open>l < 0\<close> show ?thesis by simp
  next
    assume "k < 0" "\<not> l < 0"
    with a have "CHR ''-'' # digits (nat (-k)) = digits (nat l)" by (simp add: toString_def)
    then have "hd (digits (nat l)) = CHR ''-''" by (metis list.sel(1))
    with nd show ?thesis by simp
  next
    assume "\<not> k < 0" "l < 0"
    with a have "CHR ''-'' # digits (nat (-l)) = digits (nat k)" by (simp add: toString_def)
    then have "hd (digits (nat k)) = CHR ''-''" by (metis list.sel(1))
    with nd show ?thesis by simp
  next
    assume "\<not> k < 0" "\<not> l < 0"
    with a have "nat k = nat l" by (simp add: toString_def digits_inj)
    with \<open>\<not> k < 0\<close> \<open>\<not> l < 0\<close> show ?thesis by simp
  qed
qed

lemma split_at_sep:
  "a @ c # r = a' @ c # r' \<Longrightarrow> c \<notin> set a \<Longrightarrow> c \<notin> set a' \<Longrightarrow> a = a' \<and> r = r'"
proof (induction a arbitrary: a')
  case Nil
  then show ?case by (cases a') auto
next
  case (Cons x xs)
  then show ?case by (cases a') auto
qed

lemma cellID_parts_inj:
  assumes "toString a @ '','' @ toString b @ '','' @ toString c
         = toString a' @ '','' @ toString b' @ '','' @ toString c'"
  shows "a = a' \<and> b = b' \<and> c = c'"
proof -
  from assms have "toString a @ CHR '','' # (toString b @ '','' @ toString c)
    = toString a' @ CHR '','' # (toString b' @ '','' @ toString c')" by simp
  from split_at_sep [OF this comma_notin_toString comma_notin_toString]
  have 1: "toString a = toString a'" and 2: "toString b @ CHR '','' # toString c = toString b' @ CHR '','' # toString c'"
    by simp_all
  from split_at_sep [OF 2 comma_notin_toString comma_notin_toString] 1
  show ?thesis by (auto dest: toString_inj)
qed

lemma euclideanModulo_pos: "0 < m \<Longrightarrow> euclideanModulo n m = n mod m"
proof -
  assume m: "0 < m"
  show ?thesis
  proof (cases "0 \<le> n")
    case True
    with m have "n smod m = n mod m" by (simp add: signed_modulo_int_def sgn_if)
    moreover have "0 < n mod m + m" using m pos_mod_sign [of m n] by linarith
    ultimately show ?thesis using m
      by (simp add: euclideanModulo_def signed_modulo_int_def [of "n mod m + m"] sgn_if)
  next
    case False
    define r where "r = (- n) mod m"
    from m have r: "0 \<le> r" "r < m" by (simp_all add: r_def)
    from False m have 1: "n smod m = - r" by (simp add: signed_modulo_int_def sgn_if r_def)
    have "(- r + m) smod m = (- r + m) mod m" using r m
      by (simp add: signed_modulo_int_def sgn_if)
    also have "\<dots> = (- r) mod m" by simp
    also have "\<dots> = n mod m" unfolding r_def by (simp add: mod_minus_eq)
    finally show ?thesis by (simp add: euclideanModulo_def 1)
  qed
qed

lemma toInt32_id: "0 \<le> k \<Longrightarrow> k < 2 ^ 31 \<Longrightarrow> toInt32 k = k"
  unfolding toInt32_def
  by (simp add: signed_of_int signed_take_bit_int_eq_self)

lemma local_coord: "0 < n \<Longrightarrow> n < 2 ^ 31 \<Longrightarrow> toInt32 (euclideanModulo x n) = x mod n"
  by (simp add: euclideanModulo_pos toInt32_id order_less_trans [OF pos_mod_bound])

section \<open>The store: addresses, well-formedness, reads after writes\<close>

lemma computeCellID_eq:
  "computeCellID w x y z =
     toString (x div cellSize w) @ '','' @ toString (y div cellSize w) @ '','' @
     toString (z div cellSize w)"
  by (simp add: computeCellID_def floor_divide_of_int_eq)

lemma computeCellID_eq_iff:
  "computeCellID w x y z = computeCellID w x' y' z' \<longleftrightarrow>
     x div cellSize w = x' div cellSize w \<and> y div cellSize w = y' div cellSize w \<and>
     z div cellSize w = z' div cellSize w"
proof
  assume "computeCellID w x y z = computeCellID w x' y' z'"
  then show "x div cellSize w = x' div cellSize w \<and> y div cellSize w = y' div cellSize w \<and>
     z div cellSize w = z' div cellSize w"
    unfolding computeCellID_eq by (rule cellID_parts_inj)
qed (simp add: computeCellID_eq)

lemma computeVoxelOffset_eq:
  assumes "wf_world w"
  shows "computeVoxelOffset w x y z =
     (y mod cellSize w) * (cellSize w * cellSize w) + (z mod cellSize w) * cellSize w +
     x mod cellSize w"
  using assms by (simp add: computeVoxelOffset_def wf_world_def local_coord)

lemma radix_bounds:
  fixes n a b c :: int
  assumes "0 \<le> a" "a < n" "0 \<le> b" "b < n" "0 \<le> c" "c < n"
  shows "0 \<le> b * (n * n) + c * n + a" and "b * (n * n) + c * n + a < n * n * n"
proof -
  from assms have n: "0 < n" by simp
  show "0 \<le> b * (n * n) + c * n + a" using assms n by simp
  have "b * (n * n) \<le> (n - 1) * (n * n)" using assms n by (intro mult_right_mono) simp_all
  moreover have "c * n \<le> (n - 1) * n" using assms n by (intro mult_right_mono) simp_all
  ultimately have "b * (n * n) + c * n + a \<le> (n - 1) * (n * n) + (n - 1) * n + (n - 1)"
    using assms by linarith
  also have "\<dots> = n * n * n - 1" by (simp add: algebra_simps)
  finally show "b * (n * n) + c * n + a < n * n * n" by simp
qed

lemma radix_inj:
  fixes n a b c a' b' c' :: int
  assumes "0 \<le> a" "a < n" "0 \<le> c" "c < n" "0 \<le> a'" "a' < n" "0 \<le> c'" "c' < n"
    and eq: "b * (n * n) + c * n + a = b' * (n * n) + c' * n + a'"
  shows "a = a' \<and> b = b' \<and> c = c'"
proof -
  from assms have n: "0 < n" by simp
  have e: "(b * n + c) * n + a = (b' * n + c') * n + a'" using eq by (simp add: algebra_simps)
  have "((b * n + c) * n + a) mod n = a" using assms by simp
  moreover have "((b' * n + c') * n + a') mod n = a'" using assms by simp
  ultimately have a: "a = a'" using e by simp
  with e n have e2: "b * n + c = b' * n + c'" by simp
  have "(b * n + c) mod n = c" using assms by simp
  moreover have "(b' * n + c') mod n = c'" using assms by simp
  ultimately have c: "c = c'" using e2 by simp
  with e2 n have "b = b'" by simp
  with a c show ?thesis by simp
qed

lemma computeVoxelOffset_bounds:
  assumes "wf_world w"
  shows "0 \<le> computeVoxelOffset w x y z"
    and "computeVoxelOffset w x y z < cellSize w * cellSize w * cellSize w"
proof -
  from assms have n: "0 < cellSize w" by (simp add: wf_world_def)
  show "0 \<le> computeVoxelOffset w x y z"
    unfolding computeVoxelOffset_eq [OF assms] using n by (intro radix_bounds) simp_all
  show "computeVoxelOffset w x y z < cellSize w * cellSize w * cellSize w"
    unfolding computeVoxelOffset_eq [OF assms] using n by (intro radix_bounds) simp_all
qed

lemma voxel_address_inj:
  assumes wf: "wf_world w"
    and k: "computeCellID w x y z = computeCellID w x' y' z'"
    and off: "computeVoxelOffset w x y z = computeVoxelOffset w x' y' z'"
  shows "x = x' \<and> y = y' \<and> z = z'"
proof -
  let ?n = "cellSize w"
  from wf have n: "0 < ?n" by (simp add: wf_world_def)
  from off have "(y mod ?n) * (?n * ?n) + (z mod ?n) * ?n + x mod ?n
     = (y' mod ?n) * (?n * ?n) + (z' mod ?n) * ?n + x' mod ?n"
    by (simp only: computeVoxelOffset_eq [OF wf])
  then have m: "x mod ?n = x' mod ?n \<and> y mod ?n = y' mod ?n \<and> z mod ?n = z' mod ?n"
    using n by (intro radix_inj) simp_all
  from k have d: "x div ?n = x' div ?n" "y div ?n = y' div ?n" "z div ?n = z' div ?n"
    by (simp_all add: computeCellID_eq_iff)
  have "x = x'" using m d by (metis div_mult_mod_eq)
  moreover have "y = y'" using m d by (metis div_mult_mod_eq)
  moreover have "z = z'" using m d by (metis div_mult_mod_eq)
  ultimately show ?thesis by simp
qed

lemma u8_get_set_same:
  "0 \<le> i \<Longrightarrow> i < int (length c) \<Longrightarrow> u8_get (u8_set c i v) i = Some (v mod 256)"
  by (simp add: u8_get_def u8_set_def uint_word_of_int)

lemma u8_get_set_other: "i \<noteq> j \<Longrightarrow> u8_get (u8_set c i v) j = u8_get c j"
  by (auto simp: u8_get_def u8_set_def)

lemma length_u8_set [simp]: "length (u8_set c i v) = length c"
  by (simp add: u8_set_def)

lemma u8_set_idem: "u8_set (u8_set c i v) i v = u8_set c i v"
  by (simp add: u8_set_def)

lemma setVoxel_fields [simp]:
  "cellSize (setVoxel w x y z v a) = cellSize w"
  "cellSliceSize (setVoxel w x y z v a) = cellSliceSize w"
  "tileSize (setVoxel w x y z v a) = tileSize w"
  "tileTextureWidth (setVoxel w x y z v a) = tileTextureWidth w"
  "tileTextureHeight (setVoxel w x y z v a) = tileTextureHeight w"
  by (simp_all add: setVoxel_def writeCell_def addCellForVoxel_def getCellForVoxel_def
      computeCellID_def computeVoxelOffset_def Let_def split: option.splits)

text \<open>The cells after a write, in one equation.\<close>

lemma cells_setVoxel:
  "cells (setVoxel w x y z v a) =
     (case cells w (computeCellID w x y z) of
        None \<Rightarrow> if a then (cells w)(computeCellID w x y z \<mapsto>
                   u8_set (replicate (nat (cellSize w * cellSize w * cellSize w)) 0)
                     (computeVoxelOffset w x y z) v)
                else cells w
      | Some c \<Rightarrow> (cells w)(computeCellID w x y z \<mapsto> u8_set c (computeVoxelOffset w x y z) v))"
  by (simp add: setVoxel_def writeCell_def addCellForVoxel_def getCellForVoxel_def
      computeCellID_def computeVoxelOffset_def Let_def split: option.splits)

lemma computeCellID_setVoxel [simp]:
  "computeCellID (setVoxel w x y z v a) = computeCellID w"
  by (simp add: computeCellID_def fun_eq_iff)

lemma computeVoxelOffset_setVoxel [simp]:
  "computeVoxelOffset (setVoxel w x y z v a) = computeVoxelOffset w"
  by (simp add: computeVoxelOffset_def fun_eq_iff)

lemma wf_world_setVoxel:
  assumes "wf_world w" shows "wf_world (setVoxel w x y z v a)"
proof -
  from assms have n: "0 < cellSize w" by (simp add: wf_world_def)
  then have "0 \<le> cellSize w * cellSize w * cellSize w" by simp
  then have len: "int (length (replicate (nat (cellSize w * cellSize w * cellSize w)) (0::8 word)))
     = cellSize w * cellSize w * cellSize w" by simp
  show ?thesis using assms len
    unfolding wf_world_def
    by (auto simp: cells_setVoxel ran_def split: option.splits if_splits)
qed

lemma wf_world_VoxelWorld:
  "0 < cs \<Longrightarrow> cs < 2 ^ 31 \<Longrightarrow> wf_world (VoxelWorld cs ts tw th)"
  by (simp add: wf_world_def VoxelWorld_def)

lemma getVoxel_setVoxel_same:
  assumes "wf_world w"
  shows "getVoxel (setVoxel w x y z v True) x y z = Some (v mod 256)"
proof -
  note b = computeVoxelOffset_bounds [OF assms, of x y z]
  have ex: "\<And>c. cells w (computeCellID w x y z) = Some c \<Longrightarrow>
      int (length c) = cellSize w * cellSize w * cellSize w"
    using assms by (auto simp: wf_world_def ran_def)
  from b have "0 \<le> cellSize w * cellSize w * cellSize w" by linarith
  then have len: "int (length (replicate (nat (cellSize w * cellSize w * cellSize w)) (0::8 word)))
     = cellSize w * cellSize w * cellSize w" by simp
  show ?thesis using b ex len
    by (simp add: getVoxel_def getCellForVoxel_def cells_setVoxel u8_get_set_same
        split: option.splits)
qed

lemma u8_get_replicate:
  "0 \<le> i \<Longrightarrow> i < int n \<Longrightarrow> u8_get (replicate n 0) i = Some 0"
  by (simp add: u8_get_def)

lemma getVoxel_setVoxel_other:
  assumes wf: "wf_world w" and ne: "(x', y', z') \<noteq> (x, y, z)"
  shows "getVoxel (setVoxel w x y z v a) x' y' z' = getVoxel w x' y' z'"
proof (cases "computeCellID w x' y' z' = computeCellID w x y z")
  case False
  then show ?thesis
    by (simp add: getVoxel_def getCellForVoxel_def cells_setVoxel split: option.splits)
next
  case True
  with voxel_address_inj [OF wf True] ne
  have off: "computeVoxelOffset w x y z \<noteq> computeVoxelOffset w x' y' z'" by auto
  note b = computeVoxelOffset_bounds [OF wf, of x' y' z']
  from b have "0 \<le> cellSize w * cellSize w * cellSize w" by linarith
  with b have "u8_get (replicate (nat (cellSize w * cellSize w * cellSize w)) 0)
      (computeVoxelOffset w x' y' z') = Some 0"
    by (intro u8_get_replicate) simp_all
  with True off show ?thesis
    by (simp add: getVoxel_def getCellForVoxel_def cells_setVoxel u8_get_set_other
        split: option.splits)
qed

lemma getVoxel_VoxelWorld: "getVoxel (VoxelWorld cs ts tw th) x y z = Some 0"
  by (simp add: getVoxel_def getCellForVoxel_def VoxelWorld_def)

lemma setVoxel_idem: "setVoxel (setVoxel w x y z v a) x y z v a = setVoxel w x y z v a"
  by (simp add: setVoxel_def writeCell_def addCellForVoxel_def getCellForVoxel_def
      computeCellID_def computeVoxelOffset_def Let_def u8_set_idem split: option.splits)

lemma setVoxel_repeat:
  "((\<lambda>u. setVoxel u x y z v a) ^^ Suc n) w = setVoxel w x y z v a"
  by (induction n) (simp_all add: setVoxel_idem)

lemma setVoxel_dropped:
  "getCellForVoxel w x y z = None \<Longrightarrow> setVoxel w x y z v False = w"
  by (simp add: setVoxel_def)

lemma dom_cells_setVoxel:
  "dom (cells (setVoxel w x y z v a)) =
     dom (cells w) \<union> (if a then {computeCellID w x y z} else {})"
  by (auto simp: cells_setVoxel split: option.splits if_splits)

lemma exec_fields [simp]: "cellSize (exec p w) = cellSize w"
  by (cases p) simp_all

lemma computeCellID_cong: "cellSize w = cellSize w' \<Longrightarrow> computeCellID w = computeCellID w'"
  by (simp add: computeCellID_def fun_eq_iff)

lemma dom_cells_exec:
  "dom (cells (exec p w)) = dom (cells w) \<union> (\<lambda>(x, y, z). computeCellID w x y z) ` targets p"
  by (cases p) (simp_all add: dom_cells_setVoxel)

lemma dom_cells_fold_exec:
  "dom (cells (fold exec ops w)) =
     dom (cells w) \<union> (\<lambda>(x, y, z). computeCellID w x y z) ` (\<Union>p \<in> set ops. targets p)"
proof (induction ops arbitrary: w)
  case Nil
  show ?case by simp
next
  case (Cons p ops)
  have "computeCellID (exec p w) = computeCellID w" by (rule computeCellID_cong) simp
  then show ?case by (simp add: Cons.IH dom_cells_exec image_Un Un_assoc)
qed

text \<open>Every store reached from a new world by the operations is well formed.\<close>

lemma wf_world_exec: "wf_world w \<Longrightarrow> wf_world (exec p w)"
  by (cases p) (simp_all add: wf_world_setVoxel)

lemma wf_world_run:
  assumes "0 < cs" "cs < 2 ^ 31"
  shows "wf_world (run ops (VoxelWorld cs ts tw th))"
proof -
  have "wf_world w \<Longrightarrow> wf_world (fold exec ops w)" for w
    by (induction ops arbitrary: w) (simp_all add: wf_world_exec)
  with wf_world_VoxelWorld [OF assms] show ?thesis by (simp add: run_def)
qed

section \<open>Claims about the chunk store\<close>

text \<open>
  C3. With a cell size of 32 the chunk coordinate shown in the key is the floor division
  of each axis by 32 (\<open>div\<close> on the integers rounds towards minus infinity), so the key of
  voxel \<open>(-1, 0, 0)\<close> is that of chunk \<open>(-1, 0, 0)\<close>; the local offset combines the
  non-negative remainders as \<open>ly * 32\<^sup>2 + lz * 32 + lx\<close>, so voxel \<open>(-1, 0, 0)\<close> has
  offset 31, the offset of local x = 31.
\<close>

theorem chunk_coordinates_floor:
  assumes "cellSize w = 32" and "cellSliceSize w = 32 * 32"
  shows "computeCellID w x y z =
           toString (x div 32) @ '','' @ toString (y div 32) @ '','' @ toString (z div 32) \<and>
         computeCellID w (- 1) 0 0 = ''-1,0,0'' \<and>
         computeVoxelOffset w x y z = (y mod 32) * (32 * 32) + (z mod 32) * 32 + x mod 32 \<and>
         computeVoxelOffset w (- 1) 0 0 = 31"
proof -
  have l: "\<And>k. toInt32 (euclideanModulo k 32) = k mod 32" by (rule local_coord) simp_all
  have "toString (- 1) = ''-1''" "toString 0 = ''0''"
    by (simp_all add: toString_def digits.simps digit_char_def)
  then show ?thesis using assms l
    by (simp add: computeCellID_eq computeVoxelOffset_def)
qed

theorem chunk_coordinates_floor_witness:
  "cellSize (VoxelWorld 32 16 256 64) = 32 \<and>
   computeCellID (VoxelWorld 32 16 256 64) (- 33) 40 (- 1) = ''-2,1,-1'' \<and>
   computeVoxelOffset (VoxelWorld 32 16 256 64) (- 33) 40 (- 1) = 8 * 1024 + 31 * 32 + 31"
proof -
  have "toString (- 2) = ''-2''" "toString 1 = ''1''" "toString (- 1) = ''-1''"
    by (simp_all add: toString_def digits.simps digit_char_def)
  then show ?thesis
    using chunk_coordinates_floor [of "VoxelWorld 32 16 256 64" "- 33" 40 "- 1"]
    by (simp add: VoxelWorld_def)
qed

text \<open>
  C9. When the owning chunk of \<open>(x, y, z)\<close> is not in the store, \<open>setVoxel\<close> with
  \<open>addCell = false\<close> returns normally and changes nothing: the store is the same one, no
  chunk has been inserted, and \<open>getVoxel(x, y, z)\<close> is still 0.
\<close>

theorem setVoxel_no_addCell_dropped:
  assumes "getCellForVoxel w x y z = None"
  shows "setVoxel w x y z v False = w \<and>
         getCellForVoxel (setVoxel w x y z v False) x y z = None \<and>
         getVoxel (setVoxel w x y z v False) x y z = Some 0"
  using assms by (simp add: setVoxel_dropped getVoxel_def)

theorem setVoxel_no_addCell_dropped_witness:
  "getCellForVoxel (VoxelWorld 32 16 256 64) 5 (- 3) 70 = None \<and>
   setVoxel (VoxelWorld 32 16 256 64) 5 (- 3) 70 9 False = VoxelWorld 32 16 256 64 \<and>
   getVoxel (setVoxel (VoxelWorld 32 16 256 64) 5 (- 3) 70 9 False) 5 (- 3) 70 = Some 0"
proof -
  have n: "getCellForVoxel (VoxelWorld 32 16 256 64) 5 (- 3) 70 = None"
    by (simp add: getCellForVoxel_def VoxelWorld_def)
  from setVoxel_no_addCell_dropped [OF n, of 9] n show ?thesis
    by (simp add: getVoxel_VoxelWorld)
qed

text \<open>
  C10. A cell stores bytes: after \<open>setVoxel(x, y, z, v)\<close> the voxel reads back as
  \<open>v mod 256\<close>. Writing 256 reads back as 0, and the value written is the value read
  exactly when it lies in 0..255.
\<close>

theorem voxel_types_mod_256:
  assumes "wf_world w"
  shows "getVoxel (setVoxel w x y z v True) x y z = Some (v mod 256) \<and>
         getVoxel (setVoxel w x y z 256 True) x y z = Some 0 \<and>
         (getVoxel (setVoxel w x y z v True) x y z = Some v \<longleftrightarrow> 0 \<le> v \<and> v \<le> 255)"
proof -
  have "v mod 256 = v \<longleftrightarrow> 0 \<le> v \<and> v \<le> 255" by presburger
  then show ?thesis by (simp add: getVoxel_setVoxel_same [OF assms])
qed

theorem voxel_types_mod_256_witness:
  "wf_world (VoxelWorld 32 16 256 64) \<and>
   getVoxel (setVoxel (VoxelWorld 32 16 256 64) (- 1) 2 3 300 True) (- 1) 2 3 = Some 44 \<and>
   getVoxel (setVoxel (VoxelWorld 32 16 256 64) (- 1) 2 3 (- 1) True) (- 1) 2 3 = Some 255"
proof -
  have wf: "wf_world (VoxelWorld 32 16 256 64)" by (simp add: wf_world_VoxelWorld)
  from voxel_types_mod_256 [OF wf, of "- 1" 2 3 300]
    voxel_types_mod_256 [OF wf, of "- 1" 2 3 "- 1"] wf
  show ?thesis by simp
qed

text \<open>
  The round trip of C1 as stated, for every type other than 0, fails at type 256: the
  byte stored is 0.
\<close>

theorem set_then_get_counterexample:
  "(256::int) \<noteq> 0 \<and>
   getVoxel (setVoxel (VoxelWorld 32 16 256 64) 1 2 3 256 True) 1 2 3 \<noteq> Some 256"
proof -
  have wf: "wf_world (VoxelWorld 32 16 256 64)" by (simp add: wf_world_VoxelWorld)
  show ?thesis by (simp add: getVoxel_setVoxel_same [OF wf])
qed

text \<open>
  C1, amended to the types a byte holds: for every coordinate and every type from 1 to
  255, on a well-formed store, \<open>setVoxel(x, y, z, v)\<close> followed by \<open>getVoxel(x, y, z)\<close>
  gives \<open>v\<close>; repeating the same \<open>setVoxel\<close> any number of times gives the store of one
  call, and the same reading.
\<close>

theorem set_then_get:
  assumes "wf_world w" and "1 \<le> v" and "v \<le> 255"
  shows "getVoxel (setVoxel w x y z v True) x y z = Some v \<and>
         ((\<lambda>u. setVoxel u x y z v True) ^^ Suc n) w = setVoxel w x y z v True \<and>
         getVoxel (((\<lambda>u. setVoxel u x y z v True) ^^ Suc n) w) x y z = Some v"
proof -
  from assms have "v mod 256 = v" by simp
  then show ?thesis
    by (simp only: setVoxel_repeat getVoxel_setVoxel_same [OF assms(1)] simp_thms)
qed

theorem set_then_get_witness:
  "wf_world (VoxelWorld 32 16 256 64) \<and>
   getVoxel (setVoxel (VoxelWorld 32 16 256 64) (- 40) 2 3 17 True) (- 40) 2 3 = Some 17 \<and>
   setVoxel (setVoxel (setVoxel (VoxelWorld 32 16 256 64) (- 40) 2 3 17 True) (- 40) 2 3 17 True)
       (- 40) 2 3 17 True
     = setVoxel (VoxelWorld 32 16 256 64) (- 40) 2 3 17 True"
proof -
  have wf: "wf_world (VoxelWorld 32 16 256 64)" by (simp add: wf_world_VoxelWorld)
  from set_then_get [OF wf, of 17 "- 40" 2 3 2] wf
  show ?thesis by (simp add: numeral_2_eq_2)
qed

text \<open>
  C2. Starting from a new world, after any sequence of operations the chunks present in
  the store are exactly those targeted by a \<open>setVoxel\<close> with \<open>addCell = true\<close>. For a
  coordinate, negative or not, whose chunk was never targeted, \<open>getVoxel\<close> gives 0 and
  leaves the store as it was.
\<close>

theorem cells_present_iff_written:
  assumes "0 < cs"
  shows "dom (cells (run ops (VoxelWorld cs ts tw th))) =
           (\<lambda>(x, y, z). computeCellID (VoxelWorld cs ts tw th) x y z) ` (\<Union>p \<in> set ops. targets p) \<and>
         ((\<forall>(x', y', z') \<in> (\<Union>p \<in> set ops. targets p).
              (x div cs, y div cs, z div cs) \<noteq> (x' div cs, y' div cs, z' div cs)) \<longrightarrow>
            getVoxel (run ops (VoxelWorld cs ts tw th)) x y z = Some 0 \<and>
            exec (GetVoxel x y z) (run ops (VoxelWorld cs ts tw th)) = run ops (VoxelWorld cs ts tw th))"
proof -
  let ?init = "VoxelWorld cs ts tw th"
  let ?w = "run ops ?init"
  let ?T = "\<Union>p \<in> set ops. targets p"
  have "dom (cells ?init) = {}" by (simp add: VoxelWorld_def)
  then have d: "dom (cells ?w) = (\<lambda>(x, y, z). computeCellID ?init x y z) ` ?T"
    by (simp only: run_def dom_cells_fold_exec Un_empty_left)
  have cs: "cellSize ?w = cs"
    unfolding run_def by (induction ops rule: rev_induct) (simp_all add: VoxelWorld_def)
  have cs0: "cellSize ?init = cs" by (simp add: VoxelWorld_def)
  have id: "computeCellID ?w = computeCellID ?init"
    by (rule computeCellID_cong) (simp add: cs cs0)
  {
    assume a: "\<forall>(x', y', z') \<in> ?T.
      (x div cs, y div cs, z div cs) \<noteq> (x' div cs, y' div cs, z' div cs)"
    have "computeCellID ?init x y z \<notin> dom (cells ?w)"
    proof
      assume "computeCellID ?init x y z \<in> dom (cells ?w)"
      with d obtain x' y' z' where t: "(x', y', z') \<in> ?T"
        and k: "computeCellID ?init x y z = computeCellID ?init x' y' z'" by auto
      from k have "(x div cs, y div cs, z div cs) = (x' div cs, y' div cs, z' div cs)"
        by (simp add: computeCellID_eq_iff cs0)
      with a t show False by blast
    qed
    then have "getVoxel ?w x y z = Some 0"
      by (simp add: getVoxel_def getCellForVoxel_def id domIff)
  }
  with d show ?thesis by simp
qed

theorem cells_present_iff_written_witness:
  "dom (cells (run [SetVoxel 1 2 3 7 True, GetVoxel (- 1) 0 0, SetVoxel 40 0 0 5 False]
           (VoxelWorld 32 16 256 64))) = {''0,0,0''} \<and>
   getVoxel (run [SetVoxel 1 2 3 7 True, GetVoxel (- 1) 0 0, SetVoxel 40 0 0 5 False]
           (VoxelWorld 32 16 256 64)) (- 1) 0 0 = Some 0"
proof -
  have s: "toString 0 = ''0''" by (simp add: toString_def digits.simps digit_char_def)
  from cells_present_iff_written [of 32 "[SetVoxel 1 2 3 7 True, GetVoxel (- 1) 0 0, SetVoxel 40 0 0 5 False]" 16 256 64 "- 1" 0 0]
  show ?thesis by (simp add: computeCellID_eq VoxelWorld_def s)
qed

section \<open>Doubles within their range\<close>

lemma overflowAt_ge: "2 ^ 1023 \<le> overflowAt"
  by (simp add: overflowAt_def)

lemma underflowAt_pos: "0 < underflowAt"
  by (simp add: underflowAt_def)

lemma underflowAt_le: "underflowAt \<le> 1 / 2 ^ 1074"
  by (simp add: underflowAt_def field_simps)

lemma dbl_0 [simp]: "dbl 0 = Fin 0"
  using underflowAt_pos overflowAt_ge by (simp add: dbl_def)

lemma dbl_moderate: "1 / 1024 \<le> \<bar>x\<bar> \<Longrightarrow> \<bar>x\<bar> \<le> 1024 \<Longrightarrow> dbl x = Fin x"
proof -
  assume a: "1 / 1024 \<le> \<bar>x\<bar>" "\<bar>x\<bar> \<le> 1024"
  have "(1024::real) < 2 ^ 1023" by simp
  moreover have "(1::real) / 2 ^ 1074 < 1 / 1024" by (simp add: field_simps)
  ultimately show ?thesis using a overflowAt_ge underflowAt_le by (simp add: dbl_def)
qed

lemma underflowAt_lt_1: "underflowAt < 1"
  using underflowAt_le by (simp add: underflowAt_def)

lemma dbl_exact: "underflowAt < \<bar>x\<bar> \<Longrightarrow> \<bar>x\<bar> < overflowAt \<Longrightarrow> dbl x = Fin x"
  by (simp add: dbl_def)




section \<open>The ray loop, one iteration at a time\<close>

lemma marchLoop_miss:
  "jle (t m) (len r) \<Longrightarrow> \<not> truthy (getVoxel w (ix m) (iy m) (iz m)) \<Longrightarrow>
   marchLoop w r m = marchLoop w r (advance r m)"
  by (subst marchLoop.simps) (auto split: option.splits)

lemma marchLoop_hit:
  "jle (t m) (len r) \<Longrightarrow> truthy (getVoxel w (ix m) (iy m) (iz m)) \<Longrightarrow>
   marchLoop w r m = Some (Some (hitAt r m (the (getVoxel w (ix m) (iy m) (iz m)))))"
  by (subst marchLoop.simps) (auto split: option.splits)


lemma jlt_irrefl [simp]: "\<not> jlt a a"
  by (cases a) simp_all

lemma sqrt_121: "sqrt 121 = 11"
  using real_sqrt_abs [of 11] by simp

section \<open>Claims about intersectRay\<close>

text \<open>
  C7. In a store whose only non-empty voxel is the one at grid cell \<open>(0, 0, 0)\<close>, the ray
  from \<open>(0.5, 10, 0.5)\<close> to \<open>(0.5, -1, 0.5)\<close> returns a hit: the point of intersection is
  \<open>(0.5, 1, 0.5)\<close>, on the plane y = 1, the normal is \<open>(0, 1, 0)\<close>, the top face, and the
  voxel reported is the type stored at \<open>(0, 0, 0)\<close>. Every number of this run is a
  binary fraction of moderate size, so the arithmetic of the model is the arithmetic of
  the source.
\<close>

theorem ray_down_hits_top:
  assumes "\<forall>x y z. truthy (getVoxel w x y z) \<longleftrightarrow> x = 0 \<and> y = 0 \<and> z = 0"
  shows "intersectRay w (1/2, 10, 1/2) (1/2, - 1, 1/2) =
     Some (Some \<lparr>position = (Fin (1/2), Fin 1, Fin (1/2)), normal = (0, 1, 0),
                 voxel = the (getVoxel w 0 0 0)\<rparr>)"
  using assms
  by (simp add: intersectRay_def rayOf_def marchOf_def Let_def sqrt_121 axisStep_def axisDelta_def
      axisMax_def axisDist_def marchLoop_miss marchLoop_hit advance_def hitAt_def jsub_def
      dbl_moderate)

theorem ray_down_hits_top_witness:
  "(\<forall>x y z. truthy (getVoxel (setVoxel (VoxelWorld 32 16 256 64) 0 0 0 5 True) x y z)
       \<longleftrightarrow> x = 0 \<and> y = 0 \<and> z = 0) \<and>
   intersectRay (setVoxel (VoxelWorld 32 16 256 64) 0 0 0 5 True) (1/2, 10, 1/2) (1/2, - 1, 1/2) =
     Some (Some \<lparr>position = (Fin (1/2), Fin 1, Fin (1/2)), normal = (0, 1, 0), voxel = 5\<rparr>)"
proof -
  let ?W = "setVoxel (VoxelWorld 32 16 256 64) 0 0 0 5 True"
  have wf: "wf_world (VoxelWorld 32 16 256 64)" by (simp add: wf_world_VoxelWorld)
  have s: "getVoxel ?W 0 0 0 = Some 5" by (simp add: getVoxel_setVoxel_same [OF wf])
  have o: "\<And>x y z. (x, y, z) \<noteq> (0, 0, 0) \<Longrightarrow> getVoxel ?W x y z = Some 0"
    using getVoxel_setVoxel_other [OF wf] by (simp add: getVoxel_VoxelWorld)
  have h: "\<forall>x y z. truthy (getVoxel ?W x y z) \<longleftrightarrow> x = 0 \<and> y = 0 \<and> z = 0"
  proof (intro allI)
    fix x y z show "truthy (getVoxel ?W x y z) \<longleftrightarrow> x = 0 \<and> y = 0 \<and> z = 0"
      using s o [of x y z] by (cases "(x, y, z) = (0, 0, 0)") auto
  qed
  from ray_down_hits_top [OF h] h s show ?thesis by simp
qed

text \<open>
  C6. The axis advanced by an iteration of the loop is found by comparing \<open>txMax\<close> with
  \<open>tyMax\<close> first and the smaller with \<open>tzMax\<close>: X when \<open>txMax < tyMax\<close> and
  \<open>txMax < tzMax\<close>, Z when \<open>txMax < tyMax\<close> but not \<open>txMax < tzMax\<close>, Y when not
  \<open>txMax < tyMax\<close> (in particular when \<open>txMax >= tyMax\<close>) and \<open>tyMax < tzMax\<close>, Z
  otherwise. Stepping an axis moves the voxel index of that axis by its step, sets \<open>t\<close>
  to its \<open>tMax\<close> and adds its \<open>tDelta\<close> to it. When the three \<open>tMax\<close> are equal, Z is
  stepped. Every iteration of the loop that meets an empty voxel continues with the state
  so advanced.
\<close>

theorem advance_axis_choice:
  "steppedIndex (advance r m) =
     (if jlt (txMax m) (tyMax m) then (if jlt (txMax m) (tzMax m) then 0 else 2)
      else (if jlt (tyMax m) (tzMax m) then 1 else 2)) \<and>
   (steppedIndex (advance r m) = 0 \<longrightarrow>
      ix (advance r m) = ix m + stepX r \<and> iy (advance r m) = iy m \<and> iz (advance r m) = iz m \<and>
      t (advance r m) = txMax m \<and> txMax (advance r m) = jadd (txMax m) (txDelta r) \<and>
      tyMax (advance r m) = tyMax m \<and> tzMax (advance r m) = tzMax m) \<and>
   (steppedIndex (advance r m) = 1 \<longrightarrow>
      ix (advance r m) = ix m \<and> iy (advance r m) = iy m + stepY r \<and> iz (advance r m) = iz m \<and>
      t (advance r m) = tyMax m \<and> tyMax (advance r m) = jadd (tyMax m) (tyDelta r) \<and>
      txMax (advance r m) = txMax m \<and> tzMax (advance r m) = tzMax m) \<and>
   (steppedIndex (advance r m) = 2 \<longrightarrow>
      ix (advance r m) = ix m \<and> iy (advance r m) = iy m \<and> iz (advance r m) = iz m + stepZ r \<and>
      t (advance r m) = tzMax m \<and> tzMax (advance r m) = jadd (tzMax m) (tzDelta r) \<and>
      txMax (advance r m) = txMax m \<and> tyMax (advance r m) = tyMax m) \<and>
   (jle (tyMax m) (txMax m) \<and> jlt (tyMax m) (tzMax m) \<longrightarrow> steppedIndex (advance r m) = 1) \<and>
   (txMax m = tyMax m \<and> tyMax m = tzMax m \<longrightarrow> steppedIndex (advance r m) = 2) \<and>
   (jle (t m) (len r) \<and> \<not> truthy (getVoxel w (ix m) (iy m) (iz m)) \<longrightarrow>
      marchLoop w r m = marchLoop w r (advance r m))"
proof -
  have ge: "jle (tyMax m) (txMax m) \<Longrightarrow> \<not> jlt (txMax m) (tyMax m)"
    by (cases "tyMax m"; cases "txMax m") simp_all
  show ?thesis
    by (auto simp: advance_def marchLoop_miss dest: ge)
qed

theorem advance_axis_choice_witness:
  "steppedIndex (advance (rayOf (0, 0, 0) (1, 1, 1)) (marchOf (rayOf (0, 0, 0) (1, 1, 1)))) = 2 \<and>
   txMax (marchOf (rayOf (0, 0, 0) (1, 1, 1))) = tyMax (marchOf (rayOf (0, 0, 0) (1, 1, 1))) \<and>
   tyMax (marchOf (rayOf (0, 0, 0) (1, 1, 1))) = tzMax (marchOf (rayOf (0, 0, 0) (1, 1, 1))) \<and>
   iz (advance (rayOf (0, 0, 0) (1, 1, 1)) (marchOf (rayOf (0, 0, 0) (1, 1, 1)))) = 1"
proof -
  let ?r = "rayOf (0, 0, 0) (1, 1, 1)"
  have e: "txMax (marchOf ?r) = tyMax (marchOf ?r)" "tyMax (marchOf ?r) = tzMax (marchOf ?r)"
    by (simp_all add: rayOf_def marchOf_def Let_def)
  have s: "1 \<le> sqrt 3" "sqrt 3 \<le> 2"
    using real_sqrt_le_mono [of 3 4] by simp_all
  have q: "1 / 2 \<le> 1 / sqrt 3" "1 / sqrt 3 \<le> 1"
    using s by (simp_all add: field_simps)
  have d: "dbl (1 / sqrt 3) = Fin (1 / sqrt 3)"
  proof (rule dbl_moderate)
    show "1 / 1024 \<le> \<bar>1 / sqrt 3\<bar>" using q by linarith
    show "\<bar>1 / sqrt 3\<bar> \<le> 1024" using q by linarith
  qed
  have z: "iz (marchOf ?r) = 0" "stepZ ?r = 1"
    using s d by (simp_all add: rayOf_def marchOf_def Let_def axisStep_def jsub_def dbl_moderate)
  from advance_axis_choice [of ?r "marchOf ?r"] e z show ?thesis by simp
qed



section \<open>The loop of intersectRay ends\<close>






lemma exitsAfter_iff:
  "exitsAfter r m n \<longleftrightarrow>
     (\<forall>k < n. jle (t ((advance r ^^ k) m)) (len r)) \<and>
     \<not> jle (t ((advance r ^^ n) m)) (len r)"
  by (auto simp: exitsAfter_def list_all_iff simp del: upt_Suc)






text \<open>
  A set of states that the loop does not leave: while the condition of the loop holds
  and the voxels are empty in all of them, the loop does not return.
\<close>

lemma marchLoop_never:
  assumes step: "\<And>m. S m \<Longrightarrow>
      jle (t m) (len r) \<and> \<not> truthy (getVoxel w (ix m) (iy m) (iz m)) \<and> S (advance r m)"
    and m: "S m"
  shows "marchLoop w r m = None"
proof -
  have "w = w \<longrightarrow> r = r \<longrightarrow> \<not> S m" if a: "marchLoop w r m = Some y" for y
  proof (rule marchLoop.raw_induct [where P = "\<lambda>w' r' m' y. w' = w \<longrightarrow> r' = r \<longrightarrow> \<not> S m'", OF _ a])
    fix f w' r' m' y'
    assume IH: "\<And>w' r' m' y. f w' r' m' = Some y \<Longrightarrow> w' = w \<longrightarrow> r' = r \<longrightarrow> \<not> S m'"
      and b: "(if jle (t m') (len r') then
                 case getVoxel w' (ix m') (iy m') (iz m') of
                   None \<Rightarrow> f w' r' (advance r' m')
                 | Some v \<Rightarrow> if v \<noteq> 0 then Some (Some (hitAt r' m' v))
                             else f w' r' (advance r' m')
               else Some None) = Some y'"
    show "w' = w \<longrightarrow> r' = r \<longrightarrow> \<not> S m'"
    proof (intro impI notI)
      assume e: "w' = w" "r' = r" and s: "S m'"
      from step [OF s] have c: "jle (t m') (len r)"
        "\<not> truthy (getVoxel w (ix m') (iy m') (iz m'))" "S (advance r m')" by simp_all
      from b e c(1,2) have "f w r (advance r m') = Some y'"
        by (auto split: option.splits if_splits)
      from IH [OF this] c(3) show False by simp
    qed
  qed
  then have n: "marchLoop w r m = Some y \<Longrightarrow> \<not> S m" for y by simp
  show ?thesis
  proof (cases "marchLoop w r m")
    case None
    then show ?thesis .
  next
    case (Some y)
    from n [OF Some] m show ?thesis by simp
  qed
qed

subsection \<open>The state before the first iteration\<close>



text \<open>
  One component of the vector from start to end, and its square: neither overflows when
  the coordinates are at most \<open>2^500\<close>; either may underflow to zero.
\<close>

lemma below_overflow: "x \<le> 2 ^ 1004 \<Longrightarrow> x < overflowAt"
proof -
  assume "x \<le> 2 ^ 1004"
  moreover have "(2::real) ^ 1004 < 2 ^ 1023" by simp
  ultimately show ?thesis using overflowAt_ge by linarith
qed







lemma moderateRay_distinct: "moderateRay st en \<Longrightarrow> st \<noteq> en"
  by (auto simp: moderateRay_def)




subsection \<open>The number of iterations\<close>















subsection \<open>Rays beyond the range of doubles\<close>

text \<open>
  When end and start are closer than the root of the smallest double, every square
  underflows: \<open>lenSq\<close> and \<open>len\<close> are 0, the direction along the one axis that differs
  is \<open>Infinity\<close>, and its \<open>tDelta\<close>, \<open>Math.abs(1 / Infinity)\<close>, is 0. That axis is stepped
  with \<open>t = 0\<close> each time and \<open>t <= len\<close> stays true: in an empty world the loop of
  \<open>intersectRay\<close> does not end, here for the ray from the origin to \<open>(0, 2^-600, 0)\<close>.
  The call has no result: the value of the partial function is \<open>None\<close>.
\<close>

lemma ray_underflow_never_returns:
  "((0, 0, 0) :: real \<times> real \<times> real) \<noteq> (0, 1 / 2 ^ 600, 0) \<and>
   len (rayOf (0, 0, 0) (0, 1 / 2 ^ 600, 0)) = Fin 0 \<and>
   tyDelta (rayOf (0, 0, 0) (0, 1 / 2 ^ 600, 0)) = Fin 0 \<and>
   (\<forall>n. t ((advance (rayOf (0, 0, 0) (0, 1 / 2 ^ 600, 0)) ^^ n)
             (marchOf (rayOf (0, 0, 0) (0, 1 / 2 ^ 600, 0)))) = Fin 0) \<and>
   (\<forall>n. \<not> exitsAfter (rayOf (0, 0, 0) (0, 1 / 2 ^ 600, 0))
             (marchOf (rayOf (0, 0, 0) (0, 1 / 2 ^ 600, 0))) n) \<and>
   intersectRay (VoxelWorld 32 16 256 64) (0, 0, 0) (0, 1 / 2 ^ 600, 0) = None"
proof -
  define r where "r = rayOf (0, 0, 0) (0, 1 / 2 ^ 600, 0)"
  define S where "S = (\<lambda>m :: march. t m = Fin 0 \<and> txMax m = PInf \<and> tyMax m = Fin 0 \<and> tzMax m = PInf)"
  have "(1::real) / 2 ^ 1074 < 1 / 2 ^ 600" by (simp add: field_simps)
  then have "underflowAt < \<bar>(1::real) / 2 ^ 600\<bar>" using underflowAt_le by simp
  moreover have "\<bar>(1::real) / 2 ^ 600\<bar> < overflowAt" by (intro below_overflow) simp
  ultimately have a: "dbl (1 / 2 ^ 600) = Fin (1 / 2 ^ 600)" by (rule dbl_exact)
  have "(1::real) / 2 ^ 600 * (1 / 2 ^ 600) \<le> underflowAt"
    by (simp add: underflowAt_def field_simps)
  then have b: "dbl (1 / 2 ^ 600 * (1 / 2 ^ 600)) = Fin 0"
    using overflowAt_ge by (simp add: dbl_def)
  have f: "len r = Fin 0" "start r = (0, 0, 0)" "txDelta r = NaN" "tyDelta r = Fin 0"
    "tzDelta r = NaN" "stepY r = 1"
    using a b
    by (simp_all add: r_def rayOf_def Let_def axisStep_def axisDelta_def jsub_def
        del: jmul.simps) (simp_all)
  have m: "S (marchOf r)"
    by (simp add: S_def f marchOf_def Let_def axisMax_def axisDist_def)
  have adv: "S m \<Longrightarrow> S (advance r m)" for m
    by (simp add: S_def advance_def f)
  have all: "S ((advance r ^^ n) (marchOf r))" for n
    by (induction n) (simp_all add: m adv)
  have tt: "\<forall>n. t ((advance r ^^ n) (marchOf r)) = Fin 0" using all by (simp add: S_def)
  then have nx: "\<forall>n. \<not> exitsAfter r (marchOf r) n" by (simp add: exitsAfter_iff f)
  have "marchLoop (VoxelWorld 32 16 256 64) r (marchOf r) = None"
  proof (rule marchLoop_never [where S = S])
    fix m assume "S m"
    then show "jle (t m) (len r) \<and>
        \<not> truthy (getVoxel (VoxelWorld 32 16 256 64) (ix m) (iy m) (iz m)) \<and> S (advance r m)"
      using adv [of m] by (simp add: S_def f getVoxel_VoxelWorld)
  qed (rule m)
  then have i: "intersectRay (VoxelWorld 32 16 256 64) (0, 0, 0) (0, 1 / 2 ^ 600, 0) = None"
    unfolding intersectRay_def r_def Let_def .
  have ne: "((0, 0, 0) :: real \<times> real \<times> real) \<noteq> (0, 1 / 2 ^ 600, 0)" by simp
  from ne f(1,4) tt nx i show ?thesis unfolding r_def by blast
qed

text \<open>
  When a coordinate difference is beyond the root of the largest double, its square
  overflows: \<open>lenSq\<close> and \<open>len\<close> are \<open>Infinity\<close>, every direction component is 0 and every
  \<open>tDelta\<close> and \<open>tMax\<close> is \<open>Infinity\<close>. The Z axis is stepped, \<open>t\<close> becomes \<open>Infinity\<close>, and
  \<open>Infinity <= Infinity\<close> holds each time: in an empty world the loop does not end, here
  for the ray from the origin to \<open>(10^200, 0, 0)\<close>.
\<close>

lemma ray_overflow_never_returns:
  "((0, 0, 0) :: real \<times> real \<times> real) \<noteq> (10 ^ 200, 0, 0) \<and>
   len (rayOf (0, 0, 0) (10 ^ 200, 0, 0)) = PInf \<and>
   minStep (rayOf (0, 0, 0) (10 ^ 200, 0, 0)) = PInf \<and>
   (\<forall>n. jle (t ((advance (rayOf (0, 0, 0) (10 ^ 200, 0, 0)) ^^ n)
                 (marchOf (rayOf (0, 0, 0) (10 ^ 200, 0, 0)))))
              (len (rayOf (0, 0, 0) (10 ^ 200, 0, 0)))) \<and>
   (\<forall>n. \<not> exitsAfter (rayOf (0, 0, 0) (10 ^ 200, 0, 0))
             (marchOf (rayOf (0, 0, 0) (10 ^ 200, 0, 0))) n) \<and>
   intersectRay (VoxelWorld 32 16 256 64) (0, 0, 0) (10 ^ 200, 0, 0) = None"
proof -
  define big :: real where "big = 10 ^ 200"
  define r where "r = rayOf (0, 0, 0) (big, 0, 0)"
  define S where "S = (\<lambda>m :: march. (t m = Fin 0 \<or> t m = PInf) \<and> txMax m = PInf \<and>
    tyMax m = PInf \<and> tzMax m = PInf)"
  have p: "1 < big" unfolding big_def by (rule one_less_power) simp_all
  have n: "(1200::nat) = 3 * 400" "(400::nat) = 200 + 200" "(800::nat) = 4 * 200" by simp_all
  have "overflowAt \<le> 2 ^ 1200" by (simp add: overflowAt_def)
  also have "(2::real) ^ 1200 = (2 ^ 3) ^ 400" by (subst n(1)) (rule power_mult)
  also have "\<dots> \<le> 10 ^ 400" by (rule power_mono) simp_all
  also have "(10::real) ^ 400 = 10 ^ 200 * 10 ^ 200" by (subst n(2)) (rule power_add)
  finally have "overflowAt \<le> big * big" unfolding big_def .
  then have hi: "overflowAt \<le> \<bar>big * big\<bar>" by simp
  have "big \<le> (2 ^ 4) ^ 200" unfolding big_def by (rule power_mono) simp_all
  also have "((2::real) ^ 4) ^ 200 = 2 ^ 800" by (subst n(3)) (rule power_mult [symmetric])
  also have "(2::real) ^ 800 \<le> 2 ^ 1004" by (rule power_increasing) simp_all
  finally have "\<bar>big\<bar> \<le> 2 ^ 1004" using p by simp
  then have "\<bar>big\<bar> < overflowAt" by (rule below_overflow)
  moreover have "underflowAt < \<bar>big\<bar>" using underflowAt_lt_1 p by simp
  ultimately have a: "dbl big = Fin big" by (intro dbl_exact)
  have b: "dbl (big * big) = PInf" using hi p by (simp add: dbl_def)
  have f: "len r = PInf" "start r = (0, 0, 0)" "txDelta r = PInf" "tyDelta r = PInf"
    "tzDelta r = PInf"
    using a b
    by (simp_all add: r_def rayOf_def Let_def axisStep_def axisDelta_def jsub_def
        del: jmul.simps) (simp_all)
  have m: "S (marchOf r)"
    by (simp add: S_def f marchOf_def Let_def axisMax_def axisDist_def)
  have adv: "S m \<Longrightarrow> S (advance r m)" for m
    by (simp add: S_def advance_def f)
  have all: "S ((advance r ^^ n) (marchOf r))" for n
    by (induction n) (simp_all add: m adv)
  have c: "S m \<Longrightarrow> jle (t m) (len r)" for m by (auto simp: S_def f)
  have tt: "\<forall>n. jle (t ((advance r ^^ n) (marchOf r))) (len r)" using all c by blast
  then have nx: "\<forall>n. \<not> exitsAfter r (marchOf r) n" by (simp add: exitsAfter_iff)
  have "marchLoop (VoxelWorld 32 16 256 64) r (marchOf r) = None"
  proof (rule marchLoop_never [where S = S])
    fix m assume "S m"
    then show "jle (t m) (len r) \<and>
        \<not> truthy (getVoxel (VoxelWorld 32 16 256 64) (ix m) (iy m) (iz m)) \<and> S (advance r m)"
      using adv [of m] c [of m] by (simp add: getVoxel_VoxelWorld)
  qed (rule m)
  then have i: "intersectRay (VoxelWorld 32 16 256 64) (0, 0, 0) (big, 0, 0) = None"
    unfolding intersectRay_def r_def Let_def .
  have ms: "minStep r = PInf" by (simp add: minStep_def jmin_def f)
  have "big \<noteq> 0" using p by simp
  then have ne: "((0, 0, 0) :: real \<times> real \<times> real) \<noteq> (big, 0, 0)" by simp
  from ne f(1) ms tt nx i show ?thesis unfolding r_def big_def by blast
qed

section \<open>The loops of generateGeometryDataForCell as one fold over the visible faces\<close>

lemma fold_concat_map: "fold (\<lambda>x. fold h (F x)) xs = fold h (concat (map F xs))"
  by (induction xs) (simp_all add: fun_eq_iff)

lemma filter_concat_map: "filter P (concat (map F xs)) = concat (map (\<lambda>x. filter P (F x)) xs)"
  by (simp add: filter_concat comp_def)

lemma fold_if_filter: "fold (\<lambda>x. if P x then h x else id) xs = fold h (filter P xs)"
  by (induction xs) simp_all

lemma visitVoxel_triple:
  "visitVoxel w (sx, sy, sz) y z x =
     fold (pushQuad w (sx, sy, sz))
       (filter (faceVisible w (sx, sy, sz)) (map (Pair (x, y, z)) faces))"
proof -
  let ?s = "(sx, sy, sz)"
  let ?v = "getVoxel w (sx + int x) (sy + int y) (sz + int z)"
  show ?thesis
  proof (cases "truthy ?v")
    case True
    then have step:
      "visitFace w (sx + int x, sy + int y, sz + int z) (x, y, z) (the ?v - 1) =
       (\<lambda>f. if faceVisible w ?s ((x, y, z), f) then pushQuad w ?s ((x, y, z), f) else id)"
      by (auto simp: visitFace_def faceVisible_def pushQuad_def fun_eq_iff Let_def
          split: prod.splits)
    have "visitVoxel w ?s y z x =
       fold (\<lambda>f. if faceVisible w ?s ((x, y, z), f) then pushQuad w ?s ((x, y, z), f) else id) faces"
      using True by (simp add: visitVoxel_def Let_def fun_eq_iff step)
    also have "\<dots> = fold ((\<lambda>lf. if faceVisible w ?s lf then pushQuad w ?s lf else id) \<circ> Pair (x, y, z)) faces"
      by (simp add: comp_def)
    also have "\<dots> = fold (\<lambda>lf. if faceVisible w ?s lf then pushQuad w ?s lf else id)
        (map (Pair (x, y, z)) faces)"
      by (simp only: fold_map)
    finally show ?thesis by (simp only: fold_if_filter)
  next
    case False
    then have "filter (faceVisible w ?s) (map (Pair (x, y, z)) faces) = []"
      by (auto simp: filter_empty_conv faceVisible_def split: prod.splits)
    with False show ?thesis by (simp add: visitVoxel_def Let_def fun_eq_iff)
  qed
qed

lemma visitVoxel_eq:
  "visitVoxel w s y z x =
     fold (pushQuad w s) (filter (faceVisible w s) (map (Pair (x, y, z)) faces))"
  by (cases s) (simp only: visitVoxel_triple)

lemma generate_eq_fold:
  "generateGeometryDataForCell w cellX cellY cellZ =
     fold (pushQuad w (cellStart w cellX cellY cellZ)) (emittedFaces w cellX cellY cellZ) no_geometry"
  by (simp add: generateGeometryDataForCell_def Let_def visitVoxel_eq fold_concat_map
      emittedFaces_def cellFaces_def filter_concat_map cellStart_def)

subsection \<open>The face table\<close>

lemma length_faces: "length faces = 6"
  by (simp add: faces_def)

lemma distinct_faces: "distinct faces"
  by (simp add: faces_def)

lemma corners_faces: "f \<in> set faces \<Longrightarrow> length (corners f) = 4"
  by (auto simp: faces_def)





subsection \<open>What one quad adds to the buffers\<close>

lemma length_fold_pushCorner:
  "length (positions (fold (pushCorner w l u f) cs g)) = length (positions g) + 3 * length cs \<and>
   length (normals (fold (pushCorner w l u f) cs g)) = length (normals g) + 3 * length cs \<and>
   length (uvs (fold (pushCorner w l u f) cs g)) = length (uvs g) + 2 * length cs \<and>
   indices (fold (pushCorner w l u f) cs g) = indices g"
proof (induction cs arbitrary: g)
  case Nil
  show ?case by simp
next
  case (Cons c cs)
  have "length (positions (pushCorner w l u f c g)) = length (positions g) + 3 \<and>
        length (normals (pushCorner w l u f c g)) = length (normals g) + 3 \<and>
        length (uvs (pushCorner w l u f c g)) = length (uvs g) + 2 \<and>
        indices (pushCorner w l u f c g) = indices g"
    by (simp add: pushCorner_def split: prod.splits)
  with Cons.IH [of "pushCorner w l u f c g"] show ?case by simp
qed

lemma length_pushFace:
  "length (positions (pushFace w l u f g)) = length (positions g) + 3 * length (corners f) \<and>
   length (normals (pushFace w l u f g)) = length (normals g) + 3 * length (corners f) \<and>
   length (uvs (pushFace w l u f g)) = length (uvs g) + 2 * length (corners f) \<and>
   length (indices (pushFace w l u f g)) = length (indices g) + 6"
  using length_fold_pushCorner [of w l u f "corners f" g]
  by (simp add: pushFace_def Let_def)

lemma length_fold_pushQuad:
  assumes "\<forall>lf \<in> set qs. snd lf \<in> set faces"
  shows "length (positions (fold (pushQuad w s) qs g)) = length (positions g) + 12 * length qs \<and>
         length (normals (fold (pushQuad w s) qs g)) = length (normals g) + 12 * length qs \<and>
         length (uvs (fold (pushQuad w s) qs g)) = length (uvs g) + 8 * length qs \<and>
         length (indices (fold (pushQuad w s) qs g)) = length (indices g) + 6 * length qs"
  using assms
proof (induction qs arbitrary: g)
  case Nil
  show ?case by simp
next
  case (Cons q qs)
  obtain l f where q: "q = (l, f)" by (cases q) auto
  with Cons.prems have f: "length (corners f) = 4" by (simp add: corners_faces)
  obtain sx sy sz where s: "s = (sx, sy, sz)" by (cases s) auto
  obtain x y z where l: "l = (x, y, z)" by (cases l) auto
  have "length (positions (pushQuad w s q g)) = length (positions g) + 12 \<and>
        length (normals (pushQuad w s q g)) = length (normals g) + 12 \<and>
        length (uvs (pushQuad w s q g)) = length (uvs g) + 8 \<and>
        length (indices (pushQuad w s q g)) = length (indices g) + 6"
    using length_pushFace [of w l _ f g] f by (simp add: pushQuad_def q s l)
  moreover from Cons.prems have "\<forall>lf \<in> set qs. snd lf \<in> set faces" by simp
  note Cons.IH [OF this, of "pushQuad w s q g"]
  ultimately show ?case by simp
qed

subsection \<open>The list of all faces of a cell\<close>

lemma set_cellFaces:
  "set (cellFaces n) = {((x, y, z), f) | x y z f. x < n \<and> y < n \<and> z < n \<and> f \<in> set faces}"
proof -
  have "\<And>x y z f. x < n \<Longrightarrow> y < n \<Longrightarrow> z < n \<Longrightarrow> f \<in> set faces \<Longrightarrow>
      \<exists>b \<in> {0..<n}. \<exists>c \<in> {0..<n}. \<exists>a \<in> {0..<n}. ((x, y, z), f) \<in> Pair (a, b, c) ` set faces"
  proof -
    fix x y z f assume "x < n" "y < n" "z < n" "f \<in> set faces"
    then have "y \<in> {0..<n}" "z \<in> {0..<n}" "x \<in> {0..<n}"
      "((x, y, z), f) \<in> Pair (x, y, z) ` set faces" by simp_all
    then show "\<exists>b \<in> {0..<n}. \<exists>c \<in> {0..<n}. \<exists>a \<in> {0..<n}. ((x, y, z), f) \<in> Pair (a, b, c) ` set faces"
      by blast
  qed
  then show ?thesis by (auto simp: cellFaces_def)
qed

lemma distinct_concat_map:
  assumes "distinct xs" and "\<And>x. x \<in> set xs \<Longrightarrow> distinct (F x)"
    and "\<And>x y. x \<in> set xs \<Longrightarrow> y \<in> set xs \<Longrightarrow> x \<noteq> y \<Longrightarrow> set (F x) \<inter> set (F y) = {}"
  shows "distinct (concat (map F xs))"
  using assms
proof (induction xs)
  case Nil
  show ?case by simp
next
  case (Cons x xs)
  have "distinct (concat (map F xs))" using Cons.prems by (intro Cons.IH) auto
  moreover have "distinct (F x)" using Cons.prems by simp
  moreover have "set (F x) \<inter> (\<Union>y \<in> set xs. set (F y)) = {}"
    using Cons.prems(1) Cons.prems(3) [of x] by fastforce
  ultimately show ?case by simp
qed

lemma distinct_cellFaces: "distinct (cellFaces n)"
  unfolding cellFaces_def
proof (intro distinct_concat_map)
  fix x y z :: nat
  show "distinct (map (Pair (x, y, z)) faces)"
    by (simp add: distinct_map distinct_faces inj_on_def)
qed auto

lemma emittedFaces_iff:
  "(l, f) \<in> set (emittedFaces w cellX cellY cellZ) \<longleftrightarrow>
     fst l < nat (cellSize w) \<and> fst (snd l) < nat (cellSize w) \<and>
     snd (snd l) < nat (cellSize w) \<and> f \<in> set faces \<and>
     faceVisible w (cellStart w cellX cellY cellZ) (l, f)"
  by (cases l) (auto simp: emittedFaces_def set_cellFaces)

lemma distinct_emittedFaces: "distinct (emittedFaces w cellX cellY cellZ)"
  by (simp add: emittedFaces_def distinct_cellFaces)

lemma faces_emittedFaces: "\<forall>lf \<in> set (emittedFaces w cellX cellY cellZ). snd lf \<in> set faces"
  by (auto simp: emittedFaces_def set_cellFaces)

lemma length_generate:
  "length (positions (generateGeometryDataForCell w cellX cellY cellZ)) =
     12 * length (emittedFaces w cellX cellY cellZ) \<and>
   length (normals (generateGeometryDataForCell w cellX cellY cellZ)) =
     12 * length (emittedFaces w cellX cellY cellZ) \<and>
   length (uvs (generateGeometryDataForCell w cellX cellY cellZ)) =
     8 * length (emittedFaces w cellX cellY cellZ) \<and>
   length (indices (generateGeometryDataForCell w cellX cellY cellZ)) =
     6 * length (emittedFaces w cellX cellY cellZ)"
  using length_fold_pushQuad [OF faces_emittedFaces, where g = no_geometry]
  by (simp add: generate_eq_fold no_geometry_def)

text \<open>
  The index buffer: the quad number \<open>j\<close> has the vertices \<open>4j .. 4j + 3\<close> and the two
  triangles \<open>(4j, 4j + 1, 4j + 2)\<close> and \<open>(4j + 2, 4j + 1, 4j + 3)\<close>.
\<close>

lemma indices_pushFace:
  "indices (pushFace w l u f g) =
     indices g @ [length (positions g) div 3, length (positions g) div 3 + 1,
       length (positions g) div 3 + 2, length (positions g) div 3 + 2,
       length (positions g) div 3 + 1, length (positions g) div 3 + 3]"
  using length_fold_pushCorner [of w l u f "corners f" g]
  by (simp add: pushFace_def Let_def)

lemma indices_fold_pushQuad:
  assumes "\<forall>lf \<in> set qs. snd lf \<in> set faces" and "length (positions g) = 12 * k"
  shows "indices (fold (pushQuad w s) qs g) =
     indices g @ concat (map (\<lambda>j. [4 * j, 4 * j + 1, 4 * j + 2, 4 * j + 2, 4 * j + 1, 4 * j + 3])
       [k..<k + length qs])"
  using assms
proof (induction qs arbitrary: g k)
  case Nil
  show ?case by simp
next
  case (Cons q qs)
  obtain l f where q: "q = (l, f)" by (cases q) auto
  obtain sx sy sz where s: "s = (sx, sy, sz)" by (cases s) auto
  obtain x y z where l: "l = (x, y, z)" by (cases l) auto
  from Cons.prems(1) q have fc: "length (corners f) = 4" by (simp add: corners_faces)
  let ?g = "pushQuad w s q g"
  have "(12 * k) div 3 = 4 * k" by simp
  with Cons.prems(2) have i: "indices ?g =
      indices g @ [4 * k, 4 * k + 1, 4 * k + 2, 4 * k + 2, 4 * k + 1, 4 * k + 3]"
    by (simp add: pushQuad_def q s l indices_pushFace)
  have p: "length (positions ?g) = 12 * Suc k"
    using length_pushFace [of w l _ f g] fc Cons.prems(2) by (simp add: pushQuad_def q s l)
  from Cons.prems(1) have r: "\<forall>lf \<in> set qs. snd lf \<in> set faces" by simp
  have "k < k + length (q # qs)" by simp
  from upt_conv_Cons [OF this]
  have u: "[k..<k + length (q # qs)] = k # [Suc k..<Suc k + length qs]" by simp
  from Cons.IH [OF r p] show ?case by (simp only: fold_Cons comp_apply i u) simp
qed

lemma indices_generate:
  "indices (generateGeometryDataForCell w cellX cellY cellZ) =
     concat (map (\<lambda>j. [4 * j, 4 * j + 1, 4 * j + 2, 4 * j + 2, 4 * j + 1, 4 * j + 3])
       [0..<length (emittedFaces w cellX cellY cellZ)])"
  using indices_fold_pushQuad [OF faces_emittedFaces, where g = no_geometry and k = 0]
  by (simp add: generate_eq_fold no_geometry_def)

section \<open>One non-empty voxel, and two adjacent ones\<close>

lemma one_voxel_emitted:
  assumes range: "x0 < nat (cellSize w)" "y0 < nat (cellSize w)" "z0 < nat (cellSize w)"
    and solid: "truthy (getVoxel w (cellX * cellSize w + int x0) (cellY * cellSize w + int y0)
        (cellZ * cellSize w + int z0))"
    and others: "\<forall>x y z. x < nat (cellSize w) \<and> y < nat (cellSize w) \<and> z < nat (cellSize w) \<and>
        (x, y, z) \<noteq> (x0, y0, z0) \<longrightarrow>
        \<not> truthy (getVoxel w (cellX * cellSize w + int x) (cellY * cellSize w + int y)
            (cellZ * cellSize w + int z))"
    and neighbors: "\<forall>f \<in> set faces. \<not> truthy (getVoxel w
        (cellX * cellSize w + int x0 + fst (dir f))
        (cellY * cellSize w + int y0 + fst (snd (dir f)))
        (cellZ * cellSize w + int z0 + snd (snd (dir f))))"
  shows "set (emittedFaces w cellX cellY cellZ) = Pair (x0, y0, z0) ` set faces \<and>
         length (emittedFaces w cellX cellY cellZ) = 6"
proof -
  let ?E = "emittedFaces w cellX cellY cellZ"
  have vis: "\<And>x y z f. x < nat (cellSize w) \<Longrightarrow> y < nat (cellSize w) \<Longrightarrow> z < nat (cellSize w) \<Longrightarrow>
      f \<in> set faces \<Longrightarrow>
      faceVisible w (cellStart w cellX cellY cellZ) ((x, y, z), f) \<longleftrightarrow> (x, y, z) = (x0, y0, z0)"
  proof -
    fix x y z f
    assume r: "x < nat (cellSize w)" "y < nat (cellSize w)" "z < nat (cellSize w)"
      and f: "f \<in> set faces"
    show "faceVisible w (cellStart w cellX cellY cellZ) ((x, y, z), f) \<longleftrightarrow> (x, y, z) = (x0, y0, z0)"
    proof (cases "(x, y, z) = (x0, y0, z0)")
      case True
      with solid neighbors f show ?thesis
        by (auto simp: faceVisible_def cellStart_def split: prod.splits)
    next
      case False
      with others r have "\<not> truthy (getVoxel w (cellX * cellSize w + int x)
          (cellY * cellSize w + int y) (cellZ * cellSize w + int z))" by blast
      with False show ?thesis
        by (simp add: faceVisible_def cellStart_def split: prod.splits)
    qed
  qed
  have set: "set ?E = Pair (x0, y0, z0) ` set faces"
  proof (rule set_eqI)
    fix q :: "(nat \<times> nat \<times> nat) \<times> face"
    obtain x y z f where q: "q = ((x, y, z), f)" by (cases q) auto
    show "q \<in> set ?E \<longleftrightarrow> q \<in> Pair (x0, y0, z0) ` set faces"
      unfolding q emittedFaces_iff using vis [of x y z f] range by auto
  qed
  have "length ?E = card (set ?E)"
    by (simp add: distinct_card distinct_emittedFaces)
  also have "\<dots> = card (set faces)"
    unfolding set by (rule card_image) (simp add: inj_on_def)
  also have "\<dots> = 6" using distinct_card [OF distinct_faces] by (simp add: length_faces)
  finally have len: "length ?E = 6" .
  from set len show ?thesis by simp
qed

section \<open>Claims about mesh extraction\<close>

text \<open>
  C4. When exactly one voxel of the target cell is non-empty and its six neighbors,
  inside the cell or across its boundary, in cells that exist or not, are empty,
  \<open>generateGeometryDataForCell\<close> emits the six faces of that voxel and nothing else: 24
  vertices (72 position numbers, 72 normal numbers, 48 texture coordinates) and 36
  indices, two triangles \<open>(0, 1, 2)\<close>, \<open>(2, 1, 3)\<close> for each face on its four vertices.
\<close>

theorem one_voxel_six_quads:
  assumes range: "x0 < nat (cellSize w)" "y0 < nat (cellSize w)" "z0 < nat (cellSize w)"
    and solid: "truthy (getVoxel w (cellX * cellSize w + int x0) (cellY * cellSize w + int y0)
        (cellZ * cellSize w + int z0))"
    and others: "\<forall>x y z. x < nat (cellSize w) \<and> y < nat (cellSize w) \<and> z < nat (cellSize w) \<and>
        (x, y, z) \<noteq> (x0, y0, z0) \<longrightarrow>
        \<not> truthy (getVoxel w (cellX * cellSize w + int x) (cellY * cellSize w + int y)
            (cellZ * cellSize w + int z))"
    and neighbors: "\<forall>f \<in> set faces. \<not> truthy (getVoxel w
        (cellX * cellSize w + int x0 + fst (dir f))
        (cellY * cellSize w + int y0 + fst (snd (dir f)))
        (cellZ * cellSize w + int z0 + snd (snd (dir f))))"
  shows "set (emittedFaces w cellX cellY cellZ) = Pair (x0, y0, z0) ` set faces \<and>
         length (emittedFaces w cellX cellY cellZ) = 6 \<and>
         length (positions (generateGeometryDataForCell w cellX cellY cellZ)) = 72 \<and>
         length (normals (generateGeometryDataForCell w cellX cellY cellZ)) = 72 \<and>
         length (uvs (generateGeometryDataForCell w cellX cellY cellZ)) = 48 \<and>
         length (indices (generateGeometryDataForCell w cellX cellY cellZ)) = 36 \<and>
         indices (generateGeometryDataForCell w cellX cellY cellZ) =
           [0, 1, 2, 2, 1, 3, 4, 5, 6, 6, 5, 7, 8, 9, 10, 10, 9, 11,
            12, 13, 14, 14, 13, 15, 16, 17, 18, 18, 17, 19, 20, 21, 22, 22, 21, 23]"
proof -
  note e = one_voxel_emitted [OF range solid others neighbors]
  from e have six: "length (emittedFaces w cellX cellY cellZ) = 6" by (rule conjunct2)
  have "indices (generateGeometryDataForCell w cellX cellY cellZ) =
      [0, 1, 2, 2, 1, 3, 4, 5, 6, 6, 5, 7, 8, 9, 10, 10, 9, 11,
       12, 13, 14, 14, 13, 15, 16, 17, 18, 18, 17, 19, 20, 21, 22, 22, 21, 23]"
    by (simp add: indices_generate six upt_conv_Cons)
  with six length_generate [of w cellX cellY cellZ] e show ?thesis by simp
qed

theorem one_voxel_six_quads_witness:
  "truthy (getVoxel (setVoxel (VoxelWorld 32 16 256 64) 31 5 0 7 True) 31 5 0) \<and>
   getVoxel (setVoxel (VoxelWorld 32 16 256 64) 31 5 0 7 True) 32 5 0 = Some 0 \<and>
   getVoxel (setVoxel (VoxelWorld 32 16 256 64) 31 5 0 7 True) 31 5 (- 1) = Some 0 \<and>
   length (positions (generateGeometryDataForCell
     (setVoxel (VoxelWorld 32 16 256 64) 31 5 0 7 True) 0 0 0)) = 72 \<and>
   length (indices (generateGeometryDataForCell
     (setVoxel (VoxelWorld 32 16 256 64) 31 5 0 7 True) 0 0 0)) = 36"
proof -
  let ?W = "setVoxel (VoxelWorld 32 16 256 64) 31 5 0 7 True"
  have wf: "wf_world (VoxelWorld 32 16 256 64)" by (simp add: wf_world_VoxelWorld)
  have cs: "cellSize ?W = 32" by (simp add: VoxelWorld_def)
  have s: "getVoxel ?W 31 5 0 = Some 7" by (simp add: getVoxel_setVoxel_same [OF wf])
  have o: "\<And>x y z. (x, y, z) \<noteq> (31, 5, 0) \<Longrightarrow> getVoxel ?W x y z = Some 0"
    using getVoxel_setVoxel_other [OF wf] by (simp add: getVoxel_VoxelWorld)
  have 1: "truthy (getVoxel ?W (0 * cellSize ?W + int 31) (0 * cellSize ?W + int 5)
      (0 * cellSize ?W + int 0))" by (simp add: s)
  have 2: "\<forall>x y z. x < nat (cellSize ?W) \<and> y < nat (cellSize ?W) \<and> z < nat (cellSize ?W) \<and>
      (x, y, z) \<noteq> (31, 5, 0) \<longrightarrow>
      \<not> truthy (getVoxel ?W (0 * cellSize ?W + int x) (0 * cellSize ?W + int y)
          (0 * cellSize ?W + int z))"
  proof (intro allI impI)
    fix x y z :: nat
    assume "x < nat (cellSize ?W) \<and> y < nat (cellSize ?W) \<and> z < nat (cellSize ?W) \<and>
      (x, y, z) \<noteq> (31, 5, 0)"
    then have "(int x, int y, int z) \<noteq> (31, 5, 0)" by auto
    from o [OF this] show "\<not> truthy (getVoxel ?W (0 * cellSize ?W + int x)
        (0 * cellSize ?W + int y) (0 * cellSize ?W + int z))" by simp
  qed
  have 3: "\<forall>f \<in> set faces. \<not> truthy (getVoxel ?W (0 * cellSize ?W + int 31 + fst (dir f))
      (0 * cellSize ?W + int 5 + fst (snd (dir f))) (0 * cellSize ?W + int 0 + snd (snd (dir f))))"
    by (simp add: faces_def o)
  have r: "31 < nat (cellSize ?W)" "5 < nat (cellSize ?W)" "0 < nat (cellSize ?W)"
    by (simp_all add: VoxelWorld_def)
  from one_voxel_six_quads [OF r 1 2 3] s o [of 32 5 0] o [of 31 5 "- 1"]
  show ?thesis by simp
qed





section \<open>The single-cell world\<close>

lemma toString_0: "toString 0 = ''0''"
  by (simp add: toString_def digits.simps digit_char_def)

lemma computeCellID_origin:
  "computeCellID w x y z = ''0,0,0'' \<longleftrightarrow>
     x div cellSize w = 0 \<and> y div cellSize w = 0 \<and> z div cellSize w = 0"
proof
  assume "computeCellID w x y z = ''0,0,0''"
  then have "toString (x div cellSize w) @ '','' @ toString (y div cellSize w) @ '','' @
      toString (z div cellSize w) = toString 0 @ '','' @ toString 0 @ '','' @ toString 0"
    by (simp add: computeCellID_eq toString_0)
  then show "x div cellSize w = 0 \<and> y div cellSize w = 0 \<and> z div cellSize w = 0"
    by (rule cellID_parts_inj)
next
  assume "x div cellSize w = 0 \<and> y div cellSize w = 0 \<and> z div cellSize w = 0"
  then show "computeCellID w x y z = ''0,0,0''" by (simp add: computeCellID_eq toString_0)
qed

lemma getCellForVoxel1_eq:
  "getCellForVoxel1 w x y z =
     (if x div cellSize1 w = 0 \<and> y div cellSize1 w = 0 \<and> z div cellSize1 w = 0
      then Some (cell1 w) else None)"
  by (simp add: getCellForVoxel1_def floor_divide_of_int_eq)

lemma getCellForVoxel_asStore:
  "getCellForVoxel (asStore w) x y z = getCellForVoxel1 w x y z"
proof -
  have "cellSize (asStore w) = cellSize1 w" by (simp add: asStore_def)
  then have k: "computeCellID (asStore w) x y z = ''0,0,0'' \<longleftrightarrow>
     x div cellSize1 w = 0 \<and> y div cellSize1 w = 0 \<and> z div cellSize1 w = 0"
    by (simp only: computeCellID_origin)
  have "getCellForVoxel (asStore w) x y z =
      (if computeCellID (asStore w) x y z = ''0,0,0'' then Some (cell1 w) else None)"
    unfolding getCellForVoxel_def by (simp add: asStore_def)
  then show ?thesis by (simp only: k getCellForVoxel1_eq)
qed

lemma computeVoxelOffset_asStore:
  "computeVoxelOffset (asStore w) x y z = computeVoxelOffset1 w x y z"
  by (simp add: computeVoxelOffset_def computeVoxelOffset1_def asStore_def)

lemma getVoxel_asStore: "getVoxel (asStore w) x y z = getVoxel1 w x y z"
  by (simp add: getVoxel_def getVoxel1_def getCellForVoxel_asStore computeVoxelOffset_asStore
      split: option.splits)

lemma wf_world_asStore: "wf_world1 w \<Longrightarrow> wf_world (asStore w)"
  by (simp add: wf_world_def wf_world1_def asStore_def)

lemma wf_world1_VoxelWorld1: "0 < cs \<Longrightarrow> cs < 2 ^ 31 \<Longrightarrow> wf_world1 (VoxelWorld1 cs)"
  by (simp add: wf_world1_def VoxelWorld1_def)

lemma wf_world1_setVoxel1: "wf_world1 w \<Longrightarrow> wf_world1 (setVoxel1 w x y z v)"
  by (auto simp: wf_world1_def setVoxel1_def getCellForVoxel1_eq)

text \<open>
  The write outside the cell is dropped, as the write with \<open>addCell = false\<close> (C9), and
  the cell stores bytes (C10).
\<close>

lemma setVoxel1_outside:
  "getCellForVoxel1 w x y z = None \<Longrightarrow>
   setVoxel1 w x y z v = w \<and> getVoxel1 (setVoxel1 w x y z v) x y z = Some 0"
  by (simp add: setVoxel1_def getVoxel1_def)

lemma getVoxel1_setVoxel1_same:
  assumes "wf_world1 w" "getCellForVoxel1 w x y z \<noteq> None"
  shows "getVoxel1 (setVoxel1 w x y z v) x y z = Some (v mod 256)"
proof -
  from assms(2) have c: "getCellForVoxel1 w x y z = Some (cell1 w)"
    by (simp add: getCellForVoxel1_eq split: if_splits)
  have "computeVoxelOffset1 w x y z = computeVoxelOffset (asStore w) x y z"
    by (simp add: computeVoxelOffset_asStore)
  with computeVoxelOffset_bounds [OF wf_world_asStore [OF assms(1)], of x y z]
  have b: "0 \<le> computeVoxelOffset1 w x y z"
    "computeVoxelOffset1 w x y z < int (length (cell1 w))"
    using assms(1) by (simp_all add: wf_world1_def asStore_def)
  have c': "getCellForVoxel1 (setVoxel1 w x y z v) x y z =
      Some (u8_set (cell1 w) (computeVoxelOffset1 w x y z) v)"
    using c by (simp add: setVoxel1_def getCellForVoxel1_eq split: if_splits)
  have o: "computeVoxelOffset1 (setVoxel1 w x y z v) x y z = computeVoxelOffset1 w x y z"
    using c by (simp add: setVoxel1_def computeVoxelOffset1_def)
  show ?thesis using b by (simp add: getVoxel1_def c' o u8_get_set_same)
qed

subsection \<open>Its mesh is the mesh of the store with the same voxels\<close>

lemma fold_sim:
  assumes "list_all2 A xs ys"
    and "\<And>x y a b. A x y \<Longrightarrow> R a b \<Longrightarrow> R (f x a) (g y b)"
    and "R a b"
  shows "R (fold f xs a) (fold g ys b)"
  using assms(1) assms(3)
proof (induction xs ys arbitrary: a b rule: list_all2_induct)
  case Nil
  then show ?case by simp
next
  case (Cons x xs y ys)
  from assms(2) [OF Cons.hyps(1) Cons.prems] have "R (f x a) (g y b)" .
  from Cons.IH [OF this] show ?case by simp
qed

lemma fold_sim_same:
  assumes "\<And>x a b. R a b \<Longrightarrow> R (f x a) (g x b)" and "R a b"
  shows "R (fold f xs a) (fold g xs b)"
  by (rule fold_sim [where A = "(=)"]) (simp_all add: list_all2_same assms)

lemma faces1_faces: "list_all2 sameFace faces1 faces"
  by (simp add: faces1_def faces_def sameFace_def)

lemma pushVertex1_sim:
  "sameMesh g1 g \<Longrightarrow> dir1 f1 = dir f \<Longrightarrow> p = pos c \<Longrightarrow>
   sameMesh (pushVertex1 l f1 p g1) (pushCorner w l u f c g)"
  by (simp add: sameMesh_def pushVertex1_def pushCorner_def split: prod.splits)

lemma pushFace1_sim:
  assumes "sameMesh g1 g" "sameFace f1 f"
  shows "sameMesh (pushFace1 l f1 g1) (pushFace w l u f g)"
proof -
  from assms(2) have d: "dir1 f1 = dir f" and v: "vertices f1 = map pos (corners f)"
    by (simp_all add: sameFace_def)
  have "list_all2 (\<lambda>p c. p = pos c) (vertices f1) (corners f)"
    unfolding v by (simp add: list_all2_map1 list_all2_same)
  then have "sameMesh (fold (pushVertex1 l f1) (vertices f1) g1)
      (fold (pushCorner w l u f) (corners f) g)"
    by (rule fold_sim) (simp_all add: pushVertex1_sim d assms(1))
  with assms(1) show ?thesis
    by (simp add: pushFace1_def pushFace_def Let_def sameMesh_def)
qed

lemma visitFace1_sim:
  assumes "sameMesh g1 g" "sameFace f1 f"
  shows "sameMesh (visitFace1 w1 v l f1 g1) (visitFace (asStore w1) v l u f g)"
proof -
  from assms(2) have d: "dir1 f1 = dir f" by (simp add: sameFace_def)
  show ?thesis
    using assms(1) pushFace1_sim [OF assms, of l "asStore w1" u]
    by (simp add: visitFace1_def visitFace_def d getVoxel_asStore Let_def split: prod.splits)
qed

lemma visitVoxel1_sim:
  assumes "sameMesh g1 g"
  shows "sameMesh (visitVoxel1 w1 s y z x g1) (visitVoxel (asStore w1) s y z x g)"
proof -
  obtain sx sy sz where s: "s = (sx, sy, sz)" by (cases s) auto
  have "sameMesh (fold (visitFace1 w1 v l) faces1 g1) (fold (visitFace (asStore w1) v l u) faces g)"
    for v l u
    by (rule fold_sim [OF faces1_faces]) (simp_all add: visitFace1_sim assms)
  with assms show ?thesis
    by (simp add: visitVoxel1_def visitVoxel_def s getVoxel_asStore Let_def)
qed

lemma generate1_sim:
  "sameMesh (generateGeometryDataForCell1 w1 cellX cellY cellZ)
     (generateGeometryDataForCell (asStore w1) cellX cellY cellZ)"
proof -
  let ?n = "nat (cellSize1 w1)"
  let ?s = "(cellX * cellSize1 w1, cellY * cellSize1 w1, cellZ * cellSize1 w1)"
  have 0: "sameMesh no_geometry1 no_geometry"
    by (simp add: sameMesh_def no_geometry1_def no_geometry_def)
  have c: "cellSize (asStore w1) = cellSize1 w1" by (simp add: asStore_def)
  have x: "sameMesh (fold (visitVoxel1 w1 ?s y z) [0..<?n] a)
      (fold (visitVoxel (asStore w1) ?s y z) [0..<?n] b)" if "sameMesh a b" for a b y z
    using that by (rule fold_sim_same [where R = sameMesh, rotated]) (rule visitVoxel1_sim)
  have z: "sameMesh (fold (\<lambda>z. fold (visitVoxel1 w1 ?s y z) [0..<?n]) [0..<?n] a)
      (fold (\<lambda>z. fold (visitVoxel (asStore w1) ?s y z) [0..<?n]) [0..<?n] b)"
    if "sameMesh a b" for a b y
    using that by (rule fold_sim_same [where R = sameMesh, rotated]) (rule x)
  have y: "sameMesh (fold (\<lambda>y. fold (\<lambda>z. fold (visitVoxel1 w1 ?s y z) [0..<?n]) [0..<?n]) [0..<?n] a)
      (fold (\<lambda>y. fold (\<lambda>z. fold (visitVoxel (asStore w1) ?s y z) [0..<?n]) [0..<?n]) [0..<?n] b)"
    if "sameMesh a b" for a b
    using that by (rule fold_sim_same [where R = sameMesh, rotated]) (rule z)
  from y [OF 0] show ?thesis
    by (simp only: generateGeometryDataForCell1_def generateGeometryDataForCell_def Let_def c)
qed

lemma dirs_faces1: "map dir1 faces1 = map dir faces"
  by (simp add: faces1_def faces_def)

text \<open>
  The extraction of the single-cell variant, for one non-empty voxel with six empty
  neighbors (C4): 72 position numbers, 72 normal numbers and 36 indices.
\<close>

lemma one_voxel_six_quads1:
  assumes range: "x0 < nat (cellSize1 w)" "y0 < nat (cellSize1 w)" "z0 < nat (cellSize1 w)"
    and solid: "truthy (getVoxel1 w (cellX * cellSize1 w + int x0) (cellY * cellSize1 w + int y0)
        (cellZ * cellSize1 w + int z0))"
    and others: "\<forall>x y z. x < nat (cellSize1 w) \<and> y < nat (cellSize1 w) \<and> z < nat (cellSize1 w) \<and>
        (x, y, z) \<noteq> (x0, y0, z0) \<longrightarrow>
        \<not> truthy (getVoxel1 w (cellX * cellSize1 w + int x) (cellY * cellSize1 w + int y)
            (cellZ * cellSize1 w + int z))"
    and neighbors: "\<forall>f \<in> set faces1. \<not> truthy (getVoxel1 w
        (cellX * cellSize1 w + int x0 + fst (dir1 f))
        (cellY * cellSize1 w + int y0 + fst (snd (dir1 f)))
        (cellZ * cellSize1 w + int z0 + snd (snd (dir1 f))))"
  shows "length (positions1 (generateGeometryDataForCell1 w cellX cellY cellZ)) = 72 \<and>
         length (normals1 (generateGeometryDataForCell1 w cellX cellY cellZ)) = 72 \<and>
         length (indices1 (generateGeometryDataForCell1 w cellX cellY cellZ)) = 36"
proof -
  let ?W = "asStore w"
  have c: "cellSize ?W = cellSize1 w" by (simp add: asStore_def)
  have n: "\<forall>f \<in> set faces. \<not> truthy (getVoxel ?W
        (cellX * cellSize ?W + int x0 + fst (dir f))
        (cellY * cellSize ?W + int y0 + fst (snd (dir f)))
        (cellZ * cellSize ?W + int z0 + snd (snd (dir f))))"
  proof
    fix f assume "f \<in> set faces"
    then have "dir f \<in> set (map dir1 faces1)" by (simp add: dirs_faces1)
    then obtain f1 where "f1 \<in> set faces1" "dir1 f1 = dir f" by auto
    with neighbors show "\<not> truthy (getVoxel ?W
        (cellX * cellSize ?W + int x0 + fst (dir f))
        (cellY * cellSize ?W + int y0 + fst (snd (dir f)))
        (cellZ * cellSize ?W + int z0 + snd (snd (dir f))))"
      unfolding c getVoxel_asStore by metis
  qed
  have r: "x0 < nat (cellSize ?W)" "y0 < nat (cellSize ?W)" "z0 < nat (cellSize ?W)"
    using range by (simp_all only: c)
  have s: "truthy (getVoxel ?W (cellX * cellSize ?W + int x0) (cellY * cellSize ?W + int y0)
        (cellZ * cellSize ?W + int z0))"
    using solid by (simp only: c getVoxel_asStore)
  have o: "\<forall>x y z. x < nat (cellSize ?W) \<and> y < nat (cellSize ?W) \<and> z < nat (cellSize ?W) \<and>
        (x, y, z) \<noteq> (x0, y0, z0) \<longrightarrow>
        \<not> truthy (getVoxel ?W (cellX * cellSize ?W + int x) (cellY * cellSize ?W + int y)
            (cellZ * cellSize ?W + int z))"
    using others by (simp only: c getVoxel_asStore)
  from one_voxel_emitted [OF r s o n]
  have "length (emittedFaces ?W cellX cellY cellZ) = 6" by (rule conjunct2)
  with length_generate [of ?W cellX cellY cellZ]
  have "length (positions (generateGeometryDataForCell ?W cellX cellY cellZ)) = 72 \<and>
        length (normals (generateGeometryDataForCell ?W cellX cellY cellZ)) = 72 \<and>
        length (indices (generateGeometryDataForCell ?W cellX cellY cellZ)) = 36" by simp
  with generate1_sim [of w cellX cellY cellZ] show ?thesis by (simp add: sameMesh_def)
qed

end
